theory Spec2Isabelle
  imports Main "HOL-Library.AList"
begin

section \<open>Python values, exceptions and log records\<close>

text \<open>
  The repository is a JSON formatter and a level filter for Python's \<^verbatim>\<open>logging\<close>
  package (\<^verbatim>\<open>utils/logging/loggers.py\<close>) and a once-off setup function
  (\<^verbatim>\<open>utils/logging/setup.py\<close>).  The embedding keeps the data of the code: a log
  record is an object with an instance dictionary, a dictionary is an association list in
  insertion order with unique keys, and every exception a branch can raise is a value of
  \<open>exn\<close> returned on the left of a sum.
\<close>

datatype exn =
    AttributeError string
  | TypeError
  | ValueError
  | OverflowError
  | OSError
  | LibraryError string

text \<open>
  A float is a binary rational \<open>m * 2 ^ e\<close>, an infinity or a NaN.  The code never
  computes with a float itself; it only hands \<^verbatim>\<open>record.created\<close> to the library.
\<close>

datatype pyfloat = Finite int int | Infinite bool | NaN

text \<open>
  Dictionary keys are hashable values.  The JSON encoder accepts the first five kinds as
  keys; every other hashable (a tuple, a \<^verbatim>\<open>Path\<close>, a \<^verbatim>\<open>UUID\<close>, \<dots>) is \<open>KOther\<close>.
\<close>

datatype pykey = KStr string | KInt int | KFloat pyfloat | KBool bool | KNone | KOther string

text \<open>
  \<open>PObj\<close> is any object that is not one of the kinds the JSON encoder knows (an
  exception, a traceback, a \<^verbatim>\<open>datetime\<close>, a set, a bound method, \<dots>), named by an
  identifier.
\<close>

datatype pyval =
    PNone
  | PBool bool
  | PInt int
  | PFloat pyfloat
  | PStr string
  | PList "pyval list"
  | PTuple "pyval list"
  | PDict "(pykey \<times> pyval) list"
  | PObj string

text \<open>
  A \<^verbatim>\<open>logging.LogRecord\<close>: its \<^verbatim>\<open>__dict__\<close>, in insertion order.  The built-in
  attributes are set by the constructor, the caller's \<^verbatim>\<open>extra\<close> entries are added after
  them.  Attribute names are strings, as they are for every attribute set by the library
  and for every \<^verbatim>\<open>extra\<close> mapping of the specification; an \<^verbatim>\<open>extra\<close> whose keys are other
  hashable values is outside this type.
\<close>

record logrecord =
  attrs :: "(string \<times> pyval) list"

text \<open>
  What the code calls in the standard library and cannot be read off the repository:
  \<^item> \<open>class_attr\<close>: attributes found on the class when the instance dictionary has none
    (methods such as \<^verbatim>\<open>getMessage\<close>);
  \<^item> \<open>getMessage\<close>: \<^verbatim>\<open>record.getMessage()\<close>, the message with its arguments merged in;
  \<^item> \<open>formatException\<close>: \<^verbatim>\<open>Formatter.formatException\<close>, the traceback text;
  \<^item> \<open>float_micros\<close>: the rounding of a float timestamp to whole microseconds done by
    \<^verbatim>\<open>datetime.fromtimestamp\<close>, or the exception it raises (NaN, infinity, out of range);
  \<^item> \<open>str_of\<close>: \<^verbatim>\<open>str(o)\<close> for an object, which runs the object's own \<^verbatim>\<open>__str__\<close>;
  \<^item> \<open>float_repr\<close>: the text of a float used as a JSON object key.
\<close>

record stdlib =
  class_attr :: "string \<Rightarrow> pyval option"
  getMessage :: "logrecord \<Rightarrow> exn + string"
  formatException :: "pyval \<Rightarrow> exn + string"
  float_micros :: "pyfloat \<Rightarrow> exn + int"
  str_of :: "string \<Rightarrow> exn + string"
  float_repr :: "pyfloat \<Rightarrow> string"

text \<open>\<^verbatim>\<open>getattr(record, name)\<close> and \<^verbatim>\<open>record.name\<close>: instance dictionary first, then the class.\<close>

definition getattr :: "stdlib \<Rightarrow> logrecord \<Rightarrow> string \<Rightarrow> exn + pyval" where
  "getattr lib r name =
     (case map_of (attrs r) name of
        Some v \<Rightarrow> Inr v
      | None \<Rightarrow> (case class_attr lib name of
                   Some v \<Rightarrow> Inr v
                 | None \<Rightarrow> Inl (AttributeError name)))"

section \<open>The timestamp text\<close>

text \<open>
  \<^verbatim>\<open>dt.datetime.fromtimestamp(record.created, tz=dt.timezone.utc).isoformat()\<close>.
  Decimal text first: \<open>dec\<close> is \<^verbatim>\<open>str(n)\<close> of a natural number and \<open>zpad w\<close> is
  \<^verbatim>\<open>"%0wd" % n\<close>.
\<close>

definition digit_char :: "nat \<Rightarrow> char" where
  "digit_char d = ''0123456789'' ! (d mod 10)"

fun dec :: "nat \<Rightarrow> string" where
  "dec n = (if n < 10 then [digit_char n] else dec (n div 10) @ [digit_char (n mod 10)])"

declare dec.simps [simp del]

definition zpad :: "nat \<Rightarrow> nat \<Rightarrow> string" where
  "zpad w n = replicate (w - length (dec n)) CHR ''0'' @ dec n"

definition show_int :: "int \<Rightarrow> string" where
  "show_int i = (if i < 0 then CHR ''-'' # dec (nat (- i)) else dec (nat i))"

text \<open>
  The proleptic Gregorian calendar of \<^verbatim>\<open>datetime\<close>: day 1 is 0001-01-01.  \<open>ord2ymd\<close>
  follows \<^verbatim>\<open>datetime._ord2ymd\<close>; index 0 of the two month tables is a placeholder that is
  never read.
\<close>

definition days_in_month :: "nat \<Rightarrow> nat" where
  "days_in_month m = [0, 31, 28, 31, 30, 31, 30, 31, 31, 30, 31, 30, 31] ! m"

definition days_before_month :: "nat \<Rightarrow> nat" where
  "days_before_month m = [0, 0, 31, 59, 90, 120, 151, 181, 212, 243, 273, 304, 334] ! m"

definition month_day :: "bool \<Rightarrow> nat \<Rightarrow> nat \<times> nat" where
  "month_day leapyear n =
     (let month = (n + 50) div 32;
          preceding = days_before_month month + (if month > 2 \<and> leapyear then 1 else 0)
      in if preceding > n
         then (let month = month - 1;
                   preceding = preceding -
                     (days_in_month month + (if month = 2 \<and> leapyear then 1 else 0))
               in (month, n - preceding + 1))
         else (month, n - preceding + 1))"

definition ord2ymd :: "nat \<Rightarrow> nat \<times> nat \<times> nat" where
  "ord2ymd ordinal =
     (let n = ordinal - 1;
          n400 = n div 146097; n = n mod 146097;
          n100 = n div 36524; n = n mod 36524;
          n4 = n div 1461; n = n mod 1461;
          n1 = n div 365; n = n mod 365;
          year = n400 * 400 + 1 + n100 * 100 + n4 * 4 + n1
      in if n1 = 4 \<or> n100 = 4 then (year - 1, 12, 31)
         else (let leapyear = (n1 = 3 \<and> (n4 \<noteq> 24 \<or> n100 = 3))
               in (year, month_day leapyear n)))"

record datetime =
  year :: nat
  month :: nat
  day :: nat
  hour :: nat
  minute :: nat
  second :: nat
  microsecond :: nat

text \<open>
  The UTC date and time of an instant given in microseconds since 1970-01-01 (day
  719163).  \<^verbatim>\<open>datetime\<close> has the years 1 to 9999; outside them the library raises (a
  \<^verbatim>\<open>ValueError\<close>, an \<^verbatim>\<open>OverflowError\<close> or an \<^verbatim>\<open>OSError\<close>, depending on the platform:
  the model says \<open>ValueError\<close>).
\<close>

definition fromtimestamp_utc :: "int \<Rightarrow> exn + datetime" where
  "fromtimestamp_utc us =
     (let days = us div 86400000000;
          rest = nat (us mod 86400000000);
          ordinal = days + 719163
      in if ordinal < 1 \<or> 3652059 < ordinal then Inl ValueError
         else (case ord2ymd (nat ordinal) of (y, m, d) \<Rightarrow>
                 Inr \<lparr>year = y, month = m, day = d,
                      hour = rest div 3600000000,
                      minute = rest div 60000000 mod 60,
                      second = rest div 1000000 mod 60,
                      microsecond = rest mod 1000000\<rparr>))"

text \<open>\<^verbatim>\<open>datetime.isoformat()\<close> of an aware datetime in UTC.\<close>

definition isoformat :: "datetime \<Rightarrow> string" where
  "isoformat t =
     zpad 4 (year t) @ ''-'' @ zpad 2 (month t) @ ''-'' @ zpad 2 (day t) @ ''T'' @
     zpad 2 (hour t) @ '':'' @ zpad 2 (minute t) @ '':'' @ zpad 2 (second t) @
     (if microsecond t \<noteq> 0 then ''.'' @ zpad 6 (microsecond t) else []) @
     ''+00:00''"

text \<open>
  The timestamp of a record.  An int (and a bool, which is an int) is an exact number of
  seconds; a float is rounded to microseconds by the library; anything else is not a
  number.
\<close>

definition utc_timestamp :: "stdlib \<Rightarrow> pyval \<Rightarrow> exn + string" where
  "utc_timestamp lib created =
     (case (case created of
              PInt n \<Rightarrow> Inr (n * 1000000)
            | PBool b \<Rightarrow> Inr (if b then 1000000 else 0)
            | PFloat f \<Rightarrow> float_micros lib f
            | _ \<Rightarrow> Inl TypeError) of
        Inl e \<Rightarrow> Inl e
      | Inr us \<Rightarrow> map_sum id isoformat (fromtimestamp_utc us))"

text \<open>
  A reader for the text a consumer expects: \<^verbatim>\<open>YYYY-MM-DDTHH:MM:SS[.ffffff]+00:00\<close>, a
  date and time in ISO 8601 with the UTC offset.
\<close>

definition digit_val :: "char \<Rightarrow> nat option" where
  "digit_val c = map_of
     [(CHR ''0'', 0), (CHR ''1'', 1), (CHR ''2'', 2), (CHR ''3'', 3), (CHR ''4'', 4),
      (CHR ''5'', 5), (CHR ''6'', 6), (CHR ''7'', 7), (CHR ''8'', 8), (CHR ''9'', 9)] c"

fun read_digits :: "nat \<Rightarrow> nat \<Rightarrow> string \<Rightarrow> (nat \<times> string) option" where
  "read_digits 0 acc s = Some (acc, s)"
| "read_digits (Suc k) acc [] = None"
| "read_digits (Suc k) acc (c # s) =
     (case digit_val c of None \<Rightarrow> None | Some d \<Rightarrow> read_digits k (10 * acc + d) s)"

fun expect :: "char \<Rightarrow> string \<Rightarrow> string option" where
  "expect c [] = None"
| "expect c (x # s) = (if x = c then Some s else None)"

definition read_field :: "nat \<Rightarrow> char \<Rightarrow> string \<Rightarrow> (nat \<times> string) option" where
  "read_field w c s =
     (case read_digits w 0 s of None \<Rightarrow> None
      | Some (v, s') \<Rightarrow> (case expect c s' of None \<Rightarrow> None | Some s'' \<Rightarrow> Some (v, s'')))"

definition read_fraction :: "string \<Rightarrow> (nat \<times> string) option" where
  "read_fraction s =
     (case s of
        c # s' \<Rightarrow> (if c = CHR ''.'' then read_digits 6 0 s' else Some (0, s))
      | [] \<Rightarrow> Some (0, s))"

definition parse_iso8601_utc :: "string \<Rightarrow> datetime option" where
  "parse_iso8601_utc s =
     (case read_field 4 CHR ''-'' s of None \<Rightarrow> None | Some (y, s) \<Rightarrow>
      case read_field 2 CHR ''-'' s of None \<Rightarrow> None | Some (m, s) \<Rightarrow>
      case read_field 2 CHR ''T'' s of None \<Rightarrow> None | Some (d, s) \<Rightarrow>
      case read_field 2 CHR '':'' s of None \<Rightarrow> None | Some (hh, s) \<Rightarrow>
      case read_field 2 CHR '':'' s of None \<Rightarrow> None | Some (mm, s) \<Rightarrow>
      case read_digits 2 0 s of None \<Rightarrow> None | Some (ss, s) \<Rightarrow>
      case read_fraction s of None \<Rightarrow> None | Some (us, s) \<Rightarrow>
      if s = ''+00:00'' \<and> 1 \<le> y \<and> 1 \<le> m \<and> m \<le> 12 \<and> 1 \<le> d \<and> d \<le> 31
         \<and> hh < 24 \<and> mm < 60 \<and> ss < 60
      then Some \<lparr>year = y, month = m, day = d, hour = hh, minute = mm, second = ss,
                 microsecond = us\<rparr>
      else None)"

definition valid_datetime :: "datetime \<Rightarrow> bool" where
  "valid_datetime t \<longleftrightarrow>
     1 \<le> year t \<and> year t \<le> 9999 \<and> 1 \<le> month t \<and> month t \<le> 12 \<and>
     1 \<le> day t \<and> day t \<le> 31 \<and> hour t < 24 \<and> minute t < 60 \<and> second t < 60 \<and>
     microsecond t < 1000000"

section \<open>Dictionaries\<close>

text \<open>
  A Python dictionary keeps its keys in insertion order: assigning to a key that is
  present replaces the value where the key stands, assigning to a new key appends it.
\<close>

type_synonym 'v pydict = "(string \<times> 'v) list"

definition dict_set :: "string \<Rightarrow> 'v \<Rightarrow> 'v pydict \<Rightarrow> 'v pydict" where
  "dict_set k v d = AList.update k v d"

text \<open>\<^verbatim>\<open>d.pop(k, None)\<close>: the value found (if any) and the dictionary without the key.\<close>

definition dict_pop :: "string \<Rightarrow> 'v pydict \<Rightarrow> 'v option \<times> 'v pydict" where
  "dict_pop k d = (map_of d k, AList.delete k d)"

text \<open>\<^verbatim>\<open>d.update(other)\<close>.\<close>

definition dict_update :: "'v pydict \<Rightarrow> 'v pydict \<Rightarrow> 'v pydict" where
  "dict_update d other = fold (\<lambda>(k, v). dict_set k v) other d"

section \<open>JsonFormatter\<close>

definition LOG_RECORD_BUILTIN_ATTRS :: "string list" where
  "LOG_RECORD_BUILTIN_ATTRS =
     [''args'', ''asctime'', ''created'', ''exc_info'', ''exc_text'', ''filename'',
      ''funcName'', ''levelname'', ''levelno'', ''lineno'', ''message'', ''module'',
      ''msecs'', ''msg'', ''name'', ''pathname'', ''process'', ''processName'',
      ''relativeCreated'', ''stack_info'', ''taskName'', ''thread'', ''threadName'']"

record JsonFormatter =
  fmt_keys :: "string pydict"
  indent :: "bool option"

text \<open>\<^verbatim>\<open>__init__\<close>: a missing \<^verbatim>\<open>fmt_keys\<close> is the empty mapping.\<close>

definition JsonFormatter_init :: "string pydict option \<Rightarrow> bool option \<Rightarrow> JsonFormatter" where
  "JsonFormatter_init keys ind =
     \<lparr>fmt_keys = (case keys of Some m \<Rightarrow> m | None \<Rightarrow> []), indent = ind\<rparr>"

text \<open>\<^verbatim>\<open>Formatter.formatStack\<close> of the base class returns its argument.\<close>

definition formatStack :: "pyval \<Rightarrow> pyval" where
  "formatStack stack_info = stack_info"

text \<open>
  The first part of \<^verbatim>\<open>_prepare_log_dict\<close>: the dictionary \<^verbatim>\<open>always_fields\<close>, built in
  the order of the source (message, timestamp, then the two optional entries).
\<close>

definition always_fields :: "stdlib \<Rightarrow> logrecord \<Rightarrow> exn + pyval pydict" where
  "always_fields lib r =
     (case getMessage lib r of Inl e \<Rightarrow> Inl e | Inr msg \<Rightarrow>
      case getattr lib r ''created'' of Inl e \<Rightarrow> Inl e | Inr created \<Rightarrow>
      case utc_timestamp lib created of Inl e \<Rightarrow> Inl e | Inr ts \<Rightarrow>
      let always = [(''message'', PStr msg), (''timestamp'', PStr ts)] in
      case getattr lib r ''exc_info'' of Inl e \<Rightarrow> Inl e | Inr exc_info \<Rightarrow>
      case (if exc_info \<noteq> PNone
            then (case formatException lib exc_info of
                    Inl e \<Rightarrow> Inl e
                  | Inr text \<Rightarrow> Inr (dict_set ''exc_info'' (PStr text) always))
            else Inr always) of Inl e \<Rightarrow> Inl e | Inr always \<Rightarrow>
      case getattr lib r ''stack_info'' of Inl e \<Rightarrow> Inl e | Inr stack_info \<Rightarrow>
      if stack_info \<noteq> PNone
      then Inr (dict_set ''stack_info'' (formatStack stack_info) always)
      else Inr always)"

text \<open>
  The dictionary comprehension over \<^verbatim>\<open>self.fmt_keys.items()\<close>.  Each step pops the source
  name from \<^verbatim>\<open>always_fields\<close> and uses the popped value unless it is \<^verbatim>\<open>None\<close>, in which
  case it reads the attribute of the record; the state is the pair of \<^verbatim>\<open>always_fields\<close>
  and the dictionary under construction.
\<close>

fun apply_fmt_keys ::
  "stdlib \<Rightarrow> logrecord \<Rightarrow> string pydict \<Rightarrow> pyval pydict \<Rightarrow> pyval pydict
     \<Rightarrow> exn + (pyval pydict \<times> pyval pydict)" where
  "apply_fmt_keys lib r [] always message = Inr (always, message)"
| "apply_fmt_keys lib r ((key, val) # rest) always message =
     (case dict_pop val always of (msg_val, always') \<Rightarrow>
        (case (case msg_val of
                 Some v \<Rightarrow> (if v \<noteq> PNone then Inr v else getattr lib r val)
               | None \<Rightarrow> getattr lib r val) of
           Inl e \<Rightarrow> Inl e
         | Inr v \<Rightarrow> apply_fmt_keys lib r rest always' (dict_set key v message)))"

text \<open>The loop over \<^verbatim>\<open>record.__dict__.items()\<close>.\<close>

definition add_custom_attrs :: "pyval pydict \<Rightarrow> pyval pydict \<Rightarrow> pyval pydict" where
  "add_custom_attrs items message =
     fold (\<lambda>(key, val) m. if key \<notin> set LOG_RECORD_BUILTIN_ATTRS then dict_set key val m else m)
       items message"

definition prepare_log_dict :: "stdlib \<Rightarrow> JsonFormatter \<Rightarrow> logrecord \<Rightarrow> exn + pyval pydict" where
  "prepare_log_dict lib self r =
     (case always_fields lib r of Inl e \<Rightarrow> Inl e | Inr always \<Rightarrow>
      case apply_fmt_keys lib r (fmt_keys self) always [] of Inl e \<Rightarrow> Inl e
      | Inr (always', message) \<Rightarrow>
          Inr (add_custom_attrs (attrs r) (dict_update message always')))"

subsection \<open>\<^verbatim>\<open>json.dumps(message, default=str, indent=self.indent)\<close>\<close>

text \<open>
  The document is kept as its syntax tree, members in the order they are written;
  \<^verbatim>\<open>indent\<close> only changes the white space between the tokens.  A float is written as a
  number token (\<^verbatim>\<open>NaN\<close> and \<^verbatim>\<open>Infinity\<close> included, as \<^verbatim>\<open>allow_nan\<close> is on).
\<close>

datatype json =
    JNull
  | JBool bool
  | JInt int
  | JFloat pyfloat
  | JStr string
  | JArr "json list"
  | JObj "(string \<times> json) list"

text \<open>The first exception of a sequence of steps, or all their results.\<close>

fun sequence :: "(exn + 'a) list \<Rightarrow> exn + 'a list" where
  "sequence [] = Inr []"
| "sequence (x # xs) =
     (case x of Inl e \<Rightarrow> Inl e
      | Inr v \<Rightarrow> (case sequence xs of Inl e \<Rightarrow> Inl e | Inr vs \<Rightarrow> Inr (v # vs)))"

text \<open>
  The encoder turns a key of the five native kinds into text and raises \<^verbatim>\<open>TypeError\<close> for
  any other key: \<^verbatim>\<open>default\<close> is consulted for values only.
\<close>

definition key_text :: "stdlib \<Rightarrow> pykey \<Rightarrow> exn + string" where
  "key_text lib k =
     (case k of
        KStr s \<Rightarrow> Inr s
      | KFloat f \<Rightarrow> Inr (float_repr lib f)
      | KBool b \<Rightarrow> Inr (if b then ''true'' else ''false'')
      | KNone \<Rightarrow> Inr ''null''
      | KInt n \<Rightarrow> Inr (show_int n)
      | KOther _ \<Rightarrow> Inl TypeError)"

text \<open>
  \<open>dumps\<close> is the encoder on the values of \<open>pyval\<close>, which are finite trees.  Three ways
  in which \<^verbatim>\<open>json.dumps\<close> raises depend on the interpreter and are left out: an int with
  more decimal digits than the interpreter's limit for conversions to text
  (\<^verbatim>\<open>ValueError\<close>), a list or dictionary that contains itself (\<^verbatim>\<open>ValueError\<close>) and nesting
  deeper than the recursion limit allows (\<^verbatim>\<open>RecursionError\<close>).  So whenever \<open>dumps\<close>
  raises, \<^verbatim>\<open>json.dumps\<close> raises, and whenever \<^verbatim>\<open>json.dumps\<close> returns, \<open>dumps\<close> returns
  the same document; the properties below are stated in these two directions only.
\<close>

fun dumps :: "stdlib \<Rightarrow> pyval \<Rightarrow> exn + json" where
  "dumps lib PNone = Inr JNull"
| "dumps lib (PBool b) = Inr (JBool b)"
| "dumps lib (PInt n) = Inr (JInt n)"
| "dumps lib (PFloat f) = Inr (JFloat f)"
| "dumps lib (PStr s) = Inr (JStr s)"
| "dumps lib (PList xs) = map_sum id JArr (sequence (map (dumps lib) xs))"
| "dumps lib (PTuple xs) = map_sum id JArr (sequence (map (dumps lib) xs))"
| "dumps lib (PDict items) =
     map_sum id JObj (sequence (map (\<lambda>item.
        case key_text lib (fst item) of
          Inl e \<Rightarrow> Inl e
        | Inr k \<Rightarrow> map_sum id (Pair k) (dumps lib (snd item))) items))"
| "dumps lib (PObj obj) = map_sum id JStr (str_of lib obj)"

definition format_record :: "stdlib \<Rightarrow> JsonFormatter \<Rightarrow> logrecord \<Rightarrow> exn + json" where
  "format_record lib self r =
     (case prepare_log_dict lib self r of
        Inl e \<Rightarrow> Inl e
      | Inr message \<Rightarrow> dumps lib (PDict (map (\<lambda>(k, v). (KStr k, v)) message)))"

text \<open>
  What a consumer reads back: the members of the object, a repeated key read as its last
  member.
\<close>

definition json_keys :: "json \<Rightarrow> string list" where
  "json_keys j = (case j of JObj members \<Rightarrow> map fst members | _ \<Rightarrow> [])"

definition json_get :: "json \<Rightarrow> string \<Rightarrow> json option" where
  "json_get j k = (case j of JObj members \<Rightarrow> map_of (rev members) k | _ \<Rightarrow> None)"

section \<open>NonErrorFilter\<close>

text \<open>The level numbers of \<^verbatim>\<open>logging\<close>.\<close>

datatype level = DEBUG | INFO | WARNING | ERROR | CRITICAL

fun levelno_of :: "level \<Rightarrow> int" where
  "levelno_of DEBUG = 10"
| "levelno_of INFO = 20"
| "levelno_of WARNING = 30"
| "levelno_of ERROR = 40"
| "levelno_of CRITICAL = 50"

text \<open>
  The order of a float and an int is that of their exact values; \<^verbatim>\<open>NaN\<close> is below
  nothing.  In \<open>Infinite b\<close> the flag says that the infinity is the negative one.
\<close>

definition float_le_int :: "pyfloat \<Rightarrow> int \<Rightarrow> bool" where
  "float_le_int f n =
     (case f of
        Finite m e \<Rightarrow> (if 0 \<le> e then m * 2 ^ nat e \<le> n else m \<le> n * 2 ^ nat (- e))
      | Infinite negative \<Rightarrow> negative
      | NaN \<Rightarrow> False)"

text \<open>
  \<^verbatim>\<open>return record.levelno <= logging.INFO\<close>.  A bool is an int in Python and a float is
  compared by value; for a level number of any other kind the comparison raises
  \<^verbatim>\<open>TypeError\<close>, as it does for \<^verbatim>\<open>None\<close>, a string, a list, a tuple, a dictionary and an
  object that defines no order.
\<close>

definition filter_record :: "stdlib \<Rightarrow> logrecord \<Rightarrow> exn + bool" where
  "filter_record lib r =
     (case getattr lib r ''levelno'' of
        Inl e \<Rightarrow> Inl e
      | Inr (PInt n) \<Rightarrow> Inr (n \<le> levelno_of INFO)
      | Inr (PBool b) \<Rightarrow> Inr ((if b then 1 else 0) \<le> levelno_of INFO)
      | Inr (PFloat f) \<Rightarrow> Inr (float_le_int f (levelno_of INFO))
      | Inr _ \<Rightarrow> Inl TypeError)"
section \<open>setup_logging\<close>

text \<open>
  The state of the process that \<^verbatim>\<open>setup_logging\<close> touches: the handlers registered by
  name, the consumer threads started by \<^verbatim>\<open>QueueListener.start()\<close> (one entry for each
  call, naming the listener), and the callbacks registered with \<^verbatim>\<open>atexit\<close> (each the
  \<^verbatim>\<open>stop\<close> method of a listener).  Listeners are numbered as they are constructed.
\<close>

datatype handler = Handler (listener: "nat option")

record process =
  handlers :: "(string \<times> handler) list"
  listeners_made :: nat
  threads :: "nat list"
  atexit_hooks :: "nat list"

text \<open>
  The file \<^verbatim>\<open>utils/logging/config.json\<close> is not part of the sources, so the parsed
  configuration is a parameter: the handlers it declares, in the order in which
  \<^verbatim>\<open>logging.config.dictConfig\<close> configures them, each with the flag whether its class is
  \<^verbatim>\<open>QueueHandler\<close>.  \<^verbatim>\<open>dictConfig\<close> drops the handlers registered before, builds every
  declared handler anew and gives a queue handler a newly constructed listener (which it
  does not start).  The file is read again by every call of \<^verbatim>\<open>setup_logging\<close>.
\<close>

type_synonym config = "(string \<times> bool) list"

fun configure_handlers :: "config \<Rightarrow> nat \<Rightarrow> (string \<times> handler) list \<times> nat" where
  "configure_handlers [] n = ([], n)"
| "configure_handlers ((name, is_queue) # rest) n =
     (if is_queue
      then (case configure_handlers rest (Suc n) of
              (hs, n') \<Rightarrow> ((name, Handler (Some n)) # hs, n'))
      else (case configure_handlers rest n of
              (hs, n') \<Rightarrow> ((name, Handler None) # hs, n')))"

definition dictConfig :: "config \<Rightarrow> process \<Rightarrow> process" where
  "dictConfig log_config p =
     (case configure_handlers log_config (listeners_made p) of
        (hs, n) \<Rightarrow> p\<lparr>handlers := hs, listeners_made := n\<rparr>)"

definition getHandlerByName :: "process \<Rightarrow> string \<Rightarrow> handler option" where
  "getHandlerByName p name = map_of (handlers p) name"

definition listener_start :: "nat \<Rightarrow> process \<Rightarrow> process" where
  "listener_start l p = p\<lparr>threads := threads p @ [l]\<rparr>"

definition atexit_register :: "nat \<Rightarrow> process \<Rightarrow> process" where
  "atexit_register l p = p\<lparr>atexit_hooks := atexit_hooks p @ [l]\<rparr>"

text \<open>
  \<^verbatim>\<open>setup_logging\<close>.  \<open>loaded\<close> is what opening and parsing the configuration file gives:
  the configuration or the exception.  A handler named \<^verbatim>\<open>queue_handler\<close> without a
  \<^verbatim>\<open>listener\<close> attribute makes the attribute access raise.
\<close>

definition setup_logging :: "exn + config \<Rightarrow> process \<Rightarrow> exn + process" where
  "setup_logging loaded p =
     (case loaded of
        Inl e \<Rightarrow> Inl e
      | Inr log_config \<Rightarrow>
          (let p = dictConfig log_config p in
           case getHandlerByName p ''queue_handler'' of
             None \<Rightarrow> Inr p
           | Some queue_handler \<Rightarrow>
               (case listener queue_handler of
                  None \<Rightarrow> Inl (AttributeError ''listener'')
                | Some l \<Rightarrow> Inr (atexit_register l (listener_start l p)))))"

section \<open>Vocabulary of the properties\<close>

text \<open>The names of the fields that \<^verbatim>\<open>_prepare_log_dict\<close> computes itself.\<close>

definition reserved_names :: "string list" where
  "reserved_names = [''message'', ''timestamp'', ''exc_info'', ''stack_info'']"

text \<open>
  A field mapping leaves the names \<open>ns\<close> alone when every entry that has one of them as
  its output key or as its source maps the name to itself.
\<close>

definition keeps_names :: "string list \<Rightarrow> string pydict \<Rightarrow> bool" where
  "keeps_names ns fmt \<longleftrightarrow>
     list_all (\<lambda>(key, val). (key \<in> set ns \<or> val \<in> set ns) \<longrightarrow> key = val) fmt"

text \<open>The attributes of a record that the formatter treats as the caller's extra fields.\<close>

definition extra_fields :: "logrecord \<Rightarrow> pyval pydict" where
  "extra_fields r = filter (\<lambda>(k, v). k \<notin> set LOG_RECORD_BUILTIN_ATTRS) (attrs r)"

text \<open>The implicit fields that no entry of the mapping names as its source.\<close>

definition unconsumed :: "string pydict \<Rightarrow> pyval pydict \<Rightarrow> pyval pydict" where
  "unconsumed fmt always = filter (\<lambda>(k, v). k \<notin> snd ` set fmt) always"

text \<open>
  The order of keys as the specification words it: the mapped output keys, then the
  implicit fields that were not consumed, then the extra fields.
\<close>

definition specified_key_order :: "string pydict \<Rightarrow> pyval pydict \<Rightarrow> logrecord \<Rightarrow> string list" where
  "specified_key_order fmt always r =
     map fst fmt @ map fst (unconsumed fmt always) @ map fst (extra_fields r)"

text \<open>A list of keys with every repetition after the first occurrence left out.\<close>

definition add_key :: "string \<Rightarrow> string list \<Rightarrow> string list" where
  "add_key k ks = (if k \<in> set ks then ks else ks @ [k])"

definition first_occurrences :: "string list \<Rightarrow> string list" where
  "first_occurrences ks = fold add_key ks []"



section \<open>A library instance and the records of \<^verbatim>\<open>main.py\<close>\<close>

text \<open>
  For running the model on concrete records: a message without arguments is its own
  text, a traceback is some text, a finite float is rounded half to even on its exact
  value, and an object prints as its identifier.
\<close>

definition round_half_even :: "int \<Rightarrow> int \<Rightarrow> int" where
  "round_half_even n d =
     (let q = n div d; rest = n mod d
      in if 2 * rest < d then q
         else if d < 2 * rest then q + 1
         else if even q then q else q + 1)"

definition sample_lib :: stdlib where
  "sample_lib =
     \<lparr>class_attr = (\<lambda>name. if name = ''getMessage''
                             then Some (PObj ''<bound method LogRecord.getMessage>'')
                             else None),
      getMessage = (\<lambda>r. case map_of (attrs r) ''msg'' of
                           Some (PStr s) \<Rightarrow>
                             (case map_of (attrs r) ''args'' of
                                Some (PTuple []) \<Rightarrow> Inr s
                              | Some PNone \<Rightarrow> Inr s
                              | _ \<Rightarrow> Inl (LibraryError ''message arguments''))
                         | _ \<Rightarrow> Inl (LibraryError ''message object'')),
      formatException = (\<lambda>exc_info. Inr ''Traceback (most recent call last):''),
      float_micros = (\<lambda>f. case f of
                             Finite m e \<Rightarrow>
                               (if 0 \<le> e then Inr (m * 2 ^ nat e * 1000000)
                                else Inr (round_half_even (m * 1000000) (2 ^ nat (- e))))
                           | Infinite _ \<Rightarrow> Inl OverflowError
                           | NaN \<Rightarrow> Inl ValueError),
      str_of = (\<lambda>obj. Inr obj),
      float_repr = (\<lambda>f. case f of
                           Finite m e \<Rightarrow> show_int m @ ''*2**'' @ show_int e
                         | Infinite b \<Rightarrow> (if b then ''-Infinity'' else ''Infinity'')
                         | NaN \<Rightarrow> ''NaN'')\<rparr>"

text \<open>
  The built-in attributes of the record made by
  \<^verbatim>\<open>logger.info("Started application", extra={"note": "some extra info here"})\<close>, created
  at 1730678400.5 seconds, and the record with its extra field.
\<close>

definition builtin_attrs_of_started :: "pyval pydict" where
  "builtin_attrs_of_started =
     [(''name'', PStr ''app''), (''msg'', PStr ''Started application''), (''args'', PTuple []),
      (''levelname'', PStr ''INFO''), (''levelno'', PInt 20),
      (''pathname'', PStr ''main.py''), (''filename'', PStr ''main.py''),
      (''module'', PStr ''main''), (''exc_info'', PNone), (''exc_text'', PNone),
      (''stack_info'', PNone), (''lineno'', PInt 12), (''funcName'', PStr ''<module>''),
      (''created'', PFloat (Finite 3461356801 (- 1))), (''msecs'', PFloat (Finite 500 0)),
      (''relativeCreated'', PFloat (Finite 25 0)), (''thread'', PInt 1),
      (''threadName'', PStr ''MainThread''), (''processName'', PStr ''MainProcess''),
      (''process'', PInt 4242), (''taskName'', PNone)]"

definition started_record :: logrecord where
  "started_record =
     \<lparr>attrs = builtin_attrs_of_started @ [(''note'', PStr ''some extra info here'')]\<rparr>"

definition main_formatter :: JsonFormatter where
  "main_formatter =
     \<lparr>fmt_keys = [(''level'', ''levelname''), (''message'', ''message''),
                  (''timestamp'', ''timestamp'')],
      indent = None\<rparr>"

text \<open>The record made by \<^verbatim>\<open>logger.warning("An example warning message")\<close>.\<close>

definition warning_record :: logrecord where
  "warning_record =
     \<lparr>attrs = dict_set ''lineno'' (PInt 13) (dict_set ''levelno'' (PInt 30)
        (dict_set ''levelname'' (PStr ''WARNING'')
          (dict_set ''msg'' (PStr ''An example warning message'') builtin_attrs_of_started)))\<rparr>"

text \<open>
  The names of the implicit fields of a record: the two that are always computed and the
  two that are computed when the record carries the information.
\<close>

definition implicit_names :: "stdlib \<Rightarrow> logrecord \<Rightarrow> string list" where
  "implicit_names lib r =
     ''message'' # ''timestamp'' #
     (if getattr lib r ''exc_info'' = Inr PNone then [] else [''exc_info'']) @
     (if getattr lib r ''stack_info'' = Inr PNone then [] else [''stack_info''])"

text \<open>
  Variations of the first record: with an attribute \<^verbatim>\<open>message\<close> left by another
  formatter, with an extra field named \<^verbatim>\<open>timestamp\<close>, and with an extra field holding a
  dictionary keyed by a tuple.
\<close>

definition stale_message_record :: logrecord where
  "stale_message_record =
     \<lparr>attrs = builtin_attrs_of_started @ [(''message'', PStr ''an older message'')]\<rparr>"

definition shadowing_record :: logrecord where
  "shadowing_record =
     \<lparr>attrs = builtin_attrs_of_started @ [(''timestamp'', PStr ''yesterday'')]\<rparr>"




text \<open>Formatters with other mappings: one renames the timestamp, one emits the level as \<^verbatim>\<open>note\<close>.\<close>

definition renaming_formatter :: JsonFormatter where
  "renaming_formatter = \<lparr>fmt_keys = [(''ts'', ''timestamp'')], indent = None\<rparr>"

definition note_formatter :: JsonFormatter where
  "note_formatter = \<lparr>fmt_keys = [(''note'', ''levelname'')], indent = Some True\<rparr>"

text \<open>A configuration with a console handler and a queue handler, and a process before any setup.\<close>

definition queue_config :: config where
  "queue_config = [(''stderr'', False), (''queue_handler'', True)]"

definition fresh_process :: process where
  "fresh_process = \<lparr>handlers = [], listeners_made = 0, threads = [], atexit_hooks = []\<rparr>"

section \<open>Facts about the timestamp text\<close>

lemma digit_val_digit_char: "d < 10 \<Longrightarrow> digit_val (digit_char d) = Some d"
proof -
  assume "d < 10"
  then have "d \<in> {0,1,2,3,4,5,6,7,8,9}" by auto
  then show ?thesis by (auto simp: digit_val_def digit_char_def)
qed

lemma length_dec: "0 < w \<Longrightarrow> n < 10 ^ w \<Longrightarrow> length (dec n) \<le> w"
proof (induction n arbitrary: w rule: dec.induct)
  case (1 n)
  show ?case
  proof (cases "n < 10")
    case True then show ?thesis using "1.prems" by (subst dec.simps) simp
  next
    case False
    have "w \<noteq> Suc 0" using False "1.prems" by auto
    then obtain v where w: "w = Suc v" "0 < v" using "1.prems"
      by (cases w) auto
    have "n div 10 < 10 ^ v" using "1.prems" w by (simp add: less_mult_imp_div_less mult.commute)
    from "1.IH"[OF False \<open>0 < v\<close> this] show ?thesis using False w by (subst dec.simps) simp
  qed
qed

lemma read_digits_append:
  "read_digits k acc (s @ rest) = (case read_digits k acc s of None \<Rightarrow> None | Some (v, r) \<Rightarrow> Some (v, r @ rest))"
  if "k \<le> length s"
  using that by (induction k acc s rule: read_digits.induct) (auto split: option.splits)

lemma read_digits_dec:
  "read_digits (length (dec n)) acc (dec n) = Some (acc * 10 ^ length (dec n) + n, [])"
proof (induction n arbitrary: acc rule: dec.induct)
  case (1 n)
  show ?case
  proof (cases "n < 10")
    case True then show ?thesis by (subst (1 2 3) dec.simps) (simp add: digit_val_digit_char)
  next
    case False
    have *: "read_digits (Suc k) acc (s @ [c]) = (case read_digits k acc s of Some (v, []) \<Rightarrow> (case digit_val c of None \<Rightarrow> None | Some d \<Rightarrow> Some (10 * v + d, [])) | _ \<Rightarrow> None)" if "length s = k" for k acc s c
      using that by (induction k acc s rule: read_digits.induct) (auto split: option.splits)
    show ?thesis using False "1.IH"[OF False]
      by (subst (1 2 3) dec.simps) (simp add: * digit_val_digit_char algebra_simps)
  qed
qed

lemma read_digits_zeros:
  "read_digits (k + j) 0 (replicate k CHR ''0'' @ s) = read_digits j 0 s"
  by (induction k) (simp_all add: digit_val_def)

lemma read_digits_zpad:
  assumes "0 < w" "n < 10 ^ w"
  shows "read_digits w 0 (zpad w n @ rest) = Some (n, rest)"
proof -
  have l: "length (dec n) \<le> w" using assms by (rule length_dec)
  have "read_digits w 0 (zpad w n @ rest) = read_digits ((w - length (dec n)) + length (dec n)) 0 (replicate (w - length (dec n)) CHR ''0'' @ (dec n @ rest))"
    using l by (simp add: zpad_def)
  also have "\<dots> = read_digits (length (dec n)) 0 (dec n @ rest)" by (rule read_digits_zeros)
  also have "\<dots> = Some (n, rest)" by (simp add: read_digits_append read_digits_dec)
  finally show ?thesis .
qed


lemma month_day_bounds:
  assumes "n < 365"
  shows "case month_day leap n of (m, d) \<Rightarrow> 1 \<le> m \<and> m \<le> 12 \<and> 1 \<le> d \<and> d \<le> 31"
proof -
  define m where "m = (n + 50) div 32"
  have b: "32 * m \<le> n + 50" "n + 50 < 32 * m + 32"
    unfolding m_def by linarith+
  have md: "month_day leap n =
     (let preceding = days_before_month m + (if m > 2 \<and> leap then 1 else 0)
      in if preceding > n
         then (m - 1, n - (preceding - (days_in_month (m - 1) + (if m - 1 = 2 \<and> leap then 1 else 0))) + 1)
         else (m, n - preceding + 1))"
    by (simp add: month_day_def Let_def m_def)
  have "1 \<le> m" "m \<le> 12" using b assms by linarith+
  then consider "m = 1" | "m = 2" | "m = 3" | "m = 4" | "m = 5" | "m = 6"
    | "m = 7" | "m = 8" | "m = 9" | "m = 10" | "m = 11" | "m = 12" by atomize_elim arith
  then show ?thesis
  proof cases
    case 1 then show ?thesis using b by (simp add: md days_before_month_def days_in_month_def)
  next
    case 2 then show ?thesis using b by (auto simp add: md days_before_month_def days_in_month_def)
  next
    case 3 then show ?thesis using b by (auto simp add: md days_before_month_def days_in_month_def)
  next
    case 4 then show ?thesis using b by (auto simp add: md days_before_month_def days_in_month_def)
  next
    case 5 then show ?thesis using b by (auto simp add: md days_before_month_def days_in_month_def)
  next
    case 6 then show ?thesis using b by (auto simp add: md days_before_month_def days_in_month_def)
  next
    case 7 then show ?thesis using b by (auto simp add: md days_before_month_def days_in_month_def)
  next
    case 8 then show ?thesis using b by (auto simp add: md days_before_month_def days_in_month_def)
  next
    case 9 then show ?thesis using b by (auto simp add: md days_before_month_def days_in_month_def)
  next
    case 10 then show ?thesis using b by (auto simp add: md days_before_month_def days_in_month_def)
  next
    case 11 then show ?thesis using b by (auto simp add: md days_before_month_def days_in_month_def)
  next
    case 12 then show ?thesis using b assms by (auto simp add: md days_before_month_def days_in_month_def)
  qed
qed

lemma year_le:
  fixes n :: nat
  assumes n: "n \<le> 3652058"
  shows "n div 146097 * 400 + 1 + n mod 146097 div 36524 * 100 +
         n mod 146097 mod 36524 div 1461 * 4 + n mod 146097 mod 36524 mod 1461 div 365 \<le> 9999"
proof -
  define a where "a = n div 146097"
  define r1 where "r1 = n mod 146097"
  define b where "b = r1 div 36524"
  define r2 where "r2 = r1 mod 36524"
  define c where "c = r2 div 1461"
  define r3 where "r3 = r2 mod 1461"
  define e where "e = r3 div 365"
  have n_eq: "n = 146097 * a + r1" and r1: "r1 < 146097" by (simp_all add: a_def r1_def)
  have r1_eq: "r1 = 36524 * b + r2" and r2: "r2 < 36524" by (simp_all add: b_def r2_def)
  have r2_eq: "r2 = 1461 * c + r3" and r3: "r3 < 1461" by (simp_all add: c_def r3_def)
  have e_le: "365 * e \<le> r3" by (simp add: e_def)
  have a: "a \<le> 24" using n n_eq by linarith
  have b: "b \<le> 4" using r1 r1_eq by linarith
  have c: "c \<le> 24" using r2 r2_eq by linarith
  have e: "e \<le> 4" using r3 e_le by linarith
  have "400 * a + 1 + 100 * b + 4 * c + e \<le> 9999"
  proof (cases "a = 24")
    case False
    then have "a \<le> 23" using a by linarith
    then show ?thesis using b c e by linarith
  next
    case a24: True
    then have b3: "b \<le> 3" using n n_eq r1_eq by linarith
    show ?thesis
    proof (cases "b = 3")
      case False
      then have "b \<le> 2" using b3 by linarith
      then show ?thesis using a c e by linarith
    next
      case b3': True
      show ?thesis
      proof (cases "c = 24")
        case False
        then have "c \<le> 23" using c by linarith
        then show ?thesis using a b3 e by linarith
      next
        case True
        then have "e \<le> 2" using a24 b3' n n_eq r1_eq r2_eq e_le by linarith
        then show ?thesis using a b3 c by linarith
      qed
    qed
  qed
  then show ?thesis
    by (simp add: a_def b_def c_def e_def r1_def r2_def r3_def mult.commute)
qed

lemma ord2ymd_bounds:
  assumes "1 \<le> ordinal" "ordinal \<le> 3652059"
  shows "case ord2ymd ordinal of (y, m, d) \<Rightarrow> 1 \<le> y \<and> y \<le> 9999 \<and> 1 \<le> m \<and> m \<le> 12 \<and> 1 \<le> d \<and> d \<le> 31"
proof -
  define n where "n = ordinal - 1"
  have n: "n \<le> 3652058" using assms by (simp add: n_def)
  define b where "b = n mod 146097 div 36524"
  define e where "e = n mod 146097 mod 36524 mod 1461 div 365"
  define r where "r = n mod 146097 mod 36524 mod 1461 mod 365"
  define y where "y = n div 146097 * 400 + 1 + b * 100 + n mod 146097 mod 36524 div 1461 * 4 + e"
  define leap where "leap = (e = 3 \<and> (n mod 146097 mod 36524 div 1461 \<noteq> 24 \<or> b = 3))"
  have r: "r < 365" by (simp add: r_def)
  have y1: "1 \<le> y" by (simp add: y_def)
  have y2: "y \<le> 9999" unfolding y_def b_def e_def using n by (rule year_le)
  have y3: "2 \<le> y" if "e = 4 \<or> b = 4"
  proof -
    have "4 \<le> b * 100 + e" using that by auto
    then show ?thesis unfolding y_def by (simp only: add.assoc add.commute add.left_commute trans_le_add1 trans_le_add2 numeral_le_iff)
  qed
  have eq: "ord2ymd ordinal =
      (if e = 4 \<or> b = 4 then (y - 1, 12, 31)
       else (y, month_day leap r))"
    by (simp only: ord2ymd_def Let_def n_def[symmetric] b_def[symmetric] e_def[symmetric]
        r_def[symmetric] y_def[symmetric] leap_def[symmetric])
  show ?thesis
  proof (cases "e = 4 \<or> b = 4")
    case True
    then have eq': "ord2ymd ordinal = (y - 1, 12, 31)" by (simp add: eq)
    have "2 \<le> y" using y3 True by blast
    then show ?thesis unfolding eq' using y2 by simp linarith
  next
    case False
    obtain m d where md: "month_day leap r = (m, d)"
      by (cases "month_day leap r")
    from month_day_bounds[OF r, of leap]
    have "1 \<le> m \<and> m \<le> 12 \<and> 1 \<le> d \<and> d \<le> 31" by (simp add: md)
    then show ?thesis using False y1 y2 by (simp add: eq md)
  qed
qed


lemma read_field_zpad:
  "0 < w \<Longrightarrow> n < 10 ^ w \<Longrightarrow> read_field w c (zpad w n @ c # rest) = Some (n, rest)"
  by (simp add: read_field_def read_digits_zpad)

lemma read_fraction_zpad:
  "n < 1000000 \<Longrightarrow> read_fraction (CHR ''.'' # zpad 6 n @ rest) = Some (n, rest)"
  by (simp add: read_fraction_def read_digits_zpad)

lemma parse_isoformat:
  assumes "valid_datetime t"
  shows "parse_iso8601_utc (isoformat t) = Some t"
proof -
  have f: "year t < 10 ^ 4" "month t < 10 ^ 2" "day t < 10 ^ 2" "hour t < 10 ^ 2"
    "minute t < 10 ^ 2" "second t < 10 ^ 2" "microsecond t < 1000000"
    using assms by (simp_all add: valid_datetime_def)
  show ?thesis
  proof (cases "microsecond t = 0")
    case True
    then show ?thesis using assms f(1-6)
      by (simp add: parse_iso8601_utc_def isoformat_def read_field_zpad read_digits_zpad
          read_fraction_def valid_datetime_def)
  next
    case False
    then show ?thesis using assms f
      by (simp add: parse_iso8601_utc_def isoformat_def read_field_zpad read_digits_zpad
          read_fraction_zpad valid_datetime_def)
  qed
qed



lemma fromtimestamp_utc_valid:
  assumes "fromtimestamp_utc us = Inr t"
  shows "valid_datetime t"
proof -
  define ordinal where "ordinal = us div 86400000000 + 719163"
  define rest where "rest = nat (us mod 86400000000)"
  have o: "1 \<le> ordinal" "ordinal \<le> 3652059"
    using assms by (auto simp: fromtimestamp_utc_def Let_def ordinal_def split: if_splits)
  obtain y m d where ymd: "ord2ymd (nat ordinal) = (y, m, d)" by (cases "ord2ymd (nat ordinal)")
  have b: "1 \<le> y \<and> y \<le> 9999 \<and> 1 \<le> m \<and> m \<le> 12 \<and> 1 \<le> d \<and> d \<le> 31"
    using ord2ymd_bounds[of "nat ordinal"] o by (simp add: ymd)
  have rest: "rest < 86400000000" by (simp add: rest_def nat_less_iff)
  have t: "t = \<lparr>year = y, month = m, day = d, hour = rest div 3600000000,
      minute = rest div 60000000 mod 60, second = rest div 1000000 mod 60,
      microsecond = rest mod 1000000\<rparr>"
  proof -
    have "(if ordinal < 1 \<or> 3652059 < ordinal then Inl ValueError
           else (case ord2ymd (nat ordinal) of (y, m, d) \<Rightarrow>
                 Inr \<lparr>year = y, month = m, day = d,
                      hour = rest div 3600000000,
                      minute = rest div 60000000 mod 60,
                      second = rest div 1000000 mod 60,
                      microsecond = rest mod 1000000\<rparr>)) = Inr t"
      using assms unfolding fromtimestamp_utc_def Let_def ordinal_def rest_def .
    then show ?thesis using o by (simp add: ymd)
  qed
  have "rest div 3600000000 < 24" using rest by (simp add: div_less_iff_less_mult)
  then show ?thesis using b by (simp add: t valid_datetime_def)
qed


text \<open>Evaluation of the text functions on numerals.\<close>

lemma replicate_numeral: "replicate (numeral k) x = x # replicate (pred_numeral k) x"
  by (simp add: numeral_eq_Suc)

lemma read_digits_numeral:
  "read_digits (numeral k) acc s =
     (case s of [] \<Rightarrow> None
      | c # s' \<Rightarrow> (case digit_val c of None \<Rightarrow> None
                   | Some d \<Rightarrow> read_digits (pred_numeral k) (10 * acc + d) s'))"
  by (cases s) (simp_all add: numeral_eq_Suc)

section \<open>Facts about dictionaries\<close>

lemma keys_dict_set: "map fst (dict_set k v d) = add_key k (map fst d)"
  by (simp add: dict_set_def add_key_def update_keys)

lemma distinct_dict_set: "distinct (map fst d) \<Longrightarrow> distinct (map fst (dict_set k v d))"
  by (simp add: dict_set_def distinct_update)

lemma map_of_dict_set: "map_of (dict_set k v d) = (map_of d)(k \<mapsto> v)"
  by (simp add: dict_set_def update_conv')

lemma keys_fold_dict_set:
  "map fst (fold (\<lambda>(k, v). dict_set k v) kvs d) = fold add_key (map fst kvs) (map fst d)"
  by (induction kvs arbitrary: d) (auto simp: keys_dict_set)

lemma distinct_fold_dict_set:
  "distinct (map fst d) \<Longrightarrow> distinct (map fst (fold (\<lambda>(k, v). dict_set k v) kvs d))"
  by (induction kvs arbitrary: d) (auto simp: distinct_dict_set)

lemma map_of_fold_dict_set:
  "distinct (map fst kvs) \<Longrightarrow>
     map_of (fold (\<lambda>(k, v). dict_set k v) kvs d) x =
       (case map_of kvs x of Some v \<Rightarrow> Some v | None \<Rightarrow> map_of d x)"
proof (induction kvs arbitrary: d)
  case Nil
  then show ?case by simp
next
  case (Cons p kvs)
  obtain k v where p: "p = (k, v)" by (cases p)
  have "map_of kvs k = None" using Cons.prems by (simp add: p map_of_eq_None_iff)
  then show ?case using Cons.IH [of "dict_set k v d"] Cons.prems
    by (simp add: p map_of_dict_set split: option.splits)
qed

lemma map_of_dict_update:
  "distinct (map fst other) \<Longrightarrow>
     map_of (dict_update d other) x =
       (case map_of other x of Some v \<Rightarrow> Some v | None \<Rightarrow> map_of d x)"
  by (simp add: dict_update_def map_of_fold_dict_set)

lemma keys_dict_update:
  "map fst (dict_update d other) = fold add_key (map fst other) (map fst d)"
  by (simp add: dict_update_def keys_fold_dict_set)

lemma add_custom_attrs_eq: "add_custom_attrs items m = dict_update m (extra_of items)"
  if "extra_of = filter (\<lambda>(k, v). k \<notin> set LOG_RECORD_BUILTIN_ATTRS)"
  unfolding that add_custom_attrs_def dict_update_def
  by (induction items arbitrary: m) auto

lemma fold_add_key_append: "fold add_key (xs @ ys) ks = fold add_key ys (fold add_key xs ks)"
  by simp

lemma fold_add_key_distinct:
  "distinct (ks @ xs) \<Longrightarrow> fold add_key xs ks = ks @ xs"
  by (induction xs arbitrary: ks) (auto simp: add_key_def)

lemma set_fold_add_key: "set (fold add_key xs ks) = set ks \<union> set xs"
  by (induction xs arbitrary: ks) (auto simp: add_key_def)

lemma distinct_fold_add_key: "distinct ks \<Longrightarrow> distinct (fold add_key xs ks)"
  by (induction xs arbitrary: ks) (auto simp: add_key_def)

section \<open>Facts about the formatter\<close>

lemma apply_fmt_keys_always:
  "apply_fmt_keys lib r fmt always message = Inr (always', message') \<Longrightarrow>
     always' = unconsumed fmt always"
proof (induction fmt arbitrary: always message)
  case Nil
  then show ?case by (simp add: unconsumed_def)
next
  case (Cons p fmt)
  obtain key val where p: "p = (key, val)" by (cases p)
  from Cons.prems obtain v where
    rest: "apply_fmt_keys lib r fmt (AList.delete val always) (dict_set key v message)
             = Inr (always', message')"
    by (auto simp: p dict_pop_def split: sum.splits)
  have "always' = unconsumed fmt (AList.delete val always)" by (rule Cons.IH [OF rest])
  also have "\<dots> = unconsumed (p # fmt) always"
    by (auto simp: unconsumed_def p AList.delete_eq intro: filter_cong)
  finally show ?case .
qed

lemma apply_fmt_keys_keys:
  "apply_fmt_keys lib r fmt always message = Inr (always', message') \<Longrightarrow>
     map fst message' = fold add_key (map fst fmt) (map fst message)"
proof (induction fmt arbitrary: always message)
  case Nil
  then show ?case by simp
next
  case (Cons p fmt)
  obtain key val where p: "p = (key, val)" by (cases p)
  from Cons.prems obtain v where
    rest: "apply_fmt_keys lib r fmt (AList.delete val always) (dict_set key v message)
             = Inr (always', message')"
    by (auto simp: p dict_pop_def split: sum.splits)
  show ?case using Cons.IH [OF rest] by (simp add: p keys_dict_set)
qed

lemma apply_fmt_keys_other:
  "apply_fmt_keys lib r fmt always message = Inr (always', message') \<Longrightarrow>
     k \<notin> fst ` set fmt \<Longrightarrow> map_of message' k = map_of message k"
proof (induction fmt arbitrary: always message)
  case Nil
  then show ?case by simp
next
  case (Cons p fmt)
  obtain key val where p: "p = (key, val)" by (cases p)
  from Cons.prems obtain v where
    rest: "apply_fmt_keys lib r fmt (AList.delete val always) (dict_set key v message)
             = Inr (always', message')"
    by (auto simp: p dict_pop_def split: sum.splits)
  show ?case using Cons.IH [OF rest] Cons.prems(2) by (simp add: p map_of_dict_set)
qed

lemma add_custom_attrs_extra:
  "add_custom_attrs (attrs r) m = dict_update m (extra_fields r)"
  unfolding extra_fields_def by (rule add_custom_attrs_eq) simp

text \<open>What \<open>always_fields\<close> returns.\<close>

lemma always_fields_keys:
  assumes "always_fields lib r = Inr always"
  shows "map fst always =
           ''message'' # ''timestamp'' #
           (if getattr lib r ''exc_info'' = Inr PNone then [] else [''exc_info'']) @
           (if getattr lib r ''stack_info'' = Inr PNone then [] else [''stack_info''])"
  using assms
  by (auto simp: always_fields_def Let_def dict_set_def formatStack_def
      split: sum.splits if_splits)

lemma always_fields_distinct:
  "always_fields lib r = Inr always \<Longrightarrow> distinct (map fst always)"
  by (auto simp: always_fields_keys)

lemma always_fields_not_None:
  "always_fields lib r = Inr always \<Longrightarrow> map_of always k \<noteq> Some PNone"
  by (auto simp: always_fields_def Let_def dict_set_def formatStack_def
      split: sum.splits if_splits)

lemma always_fields_absent:
  "always_fields lib r = Inr always \<Longrightarrow> map_of always k = None \<Longrightarrow>
     k \<in> set reserved_names \<Longrightarrow> getattr lib r k = Inr PNone"
  by (auto simp: always_fields_def Let_def dict_set_def formatStack_def reserved_names_def
      split: sum.splits if_splits)

lemma always_fields_timestamp:
  "always_fields lib r = Inr always \<Longrightarrow>
     \<exists>created ts. getattr lib r ''created'' = Inr created \<and>
        utc_timestamp lib created = Inr ts \<and> map_of always ''timestamp'' = Some (PStr ts)"
  by (auto simp: always_fields_def Let_def dict_set_def formatStack_def
      split: sum.splits if_splits)

lemma always_fields_message:
  "always_fields lib r = Inr always \<Longrightarrow>
     \<exists>msg. getMessage lib r = Inr msg \<and> map_of always ''message'' = Some (PStr msg)"
  by (auto simp: always_fields_def Let_def dict_set_def formatStack_def
      split: sum.splits if_splits)

lemma keeps_names_Cons:
  "keeps_names ns ((key, val) # fmt) \<longleftrightarrow>
     ((key \<in> set ns \<or> val \<in> set ns) \<longrightarrow> key = val) \<and> keeps_names ns fmt"
  by (simp add: keeps_names_def)

lemma keeps_names_mem:
  "keeps_names ns fmt \<Longrightarrow> (key, val) \<in> set fmt \<Longrightarrow> key \<in> set ns \<or> val \<in> set ns \<Longrightarrow> key = val"
  by (auto simp: keeps_names_def list_all_iff)

text \<open>
  Under a mapping that leaves the name \<open>k\<close> alone and names it, the entry \<open>(k, k)\<close> is
  the only one that touches \<open>k\<close>: it emits the popped value, or the record's attribute
  when nothing (or \<^verbatim>\<open>None\<close>) was popped.
\<close>

lemma apply_fmt_keys_kept:
  assumes "apply_fmt_keys lib r fmt always message = Inr (always', message')"
    and "distinct (map fst fmt)" and "keeps_names ns fmt" and "k \<in> set ns"
    and "(k, k) \<in> set fmt"
  shows "\<exists>v. map_of message' k = Some v \<and>
           (case map_of always k of
              Some w \<Rightarrow> (if w \<noteq> PNone then v = w else getattr lib r k = Inr v)
            | None \<Rightarrow> getattr lib r k = Inr v)"
  using assms
proof (induction fmt arbitrary: always message)
  case Nil
  then show ?case by simp
next
  case (Cons p fmt)
  obtain key val where p: "p = (key, val)" by (cases p)
  from Cons.prems(1) obtain v where
    v: "(case map_of always val of
           Some w \<Rightarrow> (if w \<noteq> PNone then Inr w else getattr lib r val)
         | None \<Rightarrow> getattr lib r val) = Inr v"
    and rest: "apply_fmt_keys lib r fmt (AList.delete val always) (dict_set key v message)
             = Inr (always', message')"
    by (auto simp: p dict_pop_def split: sum.splits)
  have keeps: "keeps_names ns fmt" and here: "key \<in> set ns \<or> val \<in> set ns \<Longrightarrow> key = val"
    using Cons.prems(3) by (simp_all add: p keeps_names_Cons)
  have dist: "distinct (map fst fmt)" and fresh: "key \<notin> fst ` set fmt"
    using Cons.prems(2) by (simp_all add: p)
  show ?case
  proof (cases "key = k \<and> val = k")
    case True
    then have "map_of message' k = map_of (dict_set key v message) k"
      using apply_fmt_keys_other [OF rest] fresh by simp
    then have "map_of message' k = Some v" using True by (simp add: map_of_dict_set)
    then show ?thesis using v True by (auto split: option.splits if_splits)
  next
    case False
    then have "val \<noteq> k" using here Cons.prems(4) by auto
    moreover have "(k, k) \<in> set fmt" using Cons.prems(5) False by (auto simp: p)
    ultimately show ?thesis
      using Cons.IH [OF rest dist keeps Cons.prems(4)] by (simp add: delete_conv')
  qed
qed

lemma map_of_fold_dict_set_other:
  "k \<notin> fst ` set kvs \<Longrightarrow> map_of (fold (\<lambda>(k, v). dict_set k v) kvs d) k = map_of d k"
  by (induction kvs arbitrary: d) (auto simp: map_of_dict_set)

lemma map_of_filter_key:
  "map_of (filter (\<lambda>(k, v). P k) kvs) k = (if P k then map_of kvs k else None)"
  by (induction kvs) auto

lemma map_of_unconsumed:
  "map_of (unconsumed fmt always) k = (if k \<in> snd ` set fmt then None else map_of always k)"
  unfolding unconsumed_def by (simp add: map_of_filter_key)

text \<open>The value the dictionary of \<^verbatim>\<open>_prepare_log_dict\<close> holds under a name the mapping leaves alone.\<close>

lemma prepare_log_dict_kept:
  assumes prep: "prepare_log_dict lib self r = Inr d"
    and always: "always_fields lib r = Inr always"
    and dist: "distinct (map fst (fmt_keys self))"
    and keeps: "keeps_names ns (fmt_keys self)"
    and k: "k \<in> set ns" "k \<in> set reserved_names"
    and untouched: "k \<in> set LOG_RECORD_BUILTIN_ATTRS \<or> k \<notin> fst ` set (attrs r)"
  shows "map_of d k =
           (case map_of always k of
              Some v \<Rightarrow> Some v
            | None \<Rightarrow> if (k, k) \<in> set (fmt_keys self) then Some PNone else None)"
proof -
  from prep always obtain always' message where
    app: "apply_fmt_keys lib r (fmt_keys self) always [] = Inr (always', message)"
    and d: "d = add_custom_attrs (attrs r) (dict_update message always')"
    by (auto simp: prepare_log_dict_def split: sum.splits)
  have always': "always' = unconsumed (fmt_keys self) always"
    using app by (rule apply_fmt_keys_always)
  have "k \<notin> fst ` set (extra_fields r)"
    using untouched by (auto simp: extra_fields_def)
  then have "map_of d k = map_of (dict_update message always') k"
    unfolding d add_custom_attrs_extra
    by (simp add: dict_update_def [of _ "extra_fields r"] map_of_fold_dict_set_other)
  moreover have "distinct (map fst always')"
    using always_fields_distinct [OF always] by (simp add: always' unconsumed_def distinct_map_filter)
  ultimately have dk: "map_of d k =
      (case map_of always' k of Some v \<Rightarrow> Some v | None \<Rightarrow> map_of message k)"
    by (simp add: map_of_dict_update)
  show ?thesis
  proof (cases "k \<in> snd ` set (fmt_keys self)")
    case False
    then have no: "(k, k) \<notin> set (fmt_keys self)" by force
    have "k \<notin> fst ` set (fmt_keys self)"
    proof
      assume "k \<in> fst ` set (fmt_keys self)"
      then obtain val where m: "(k, val) \<in> set (fmt_keys self)" by auto
      then have "k = val" using keeps_names_mem [OF keeps m] k(1) by simp
      then show False using m no by simp
    qed
    then have "map_of message k = None"
      using apply_fmt_keys_other [OF app] by simp
    then show ?thesis using dk False no
      by (simp add: always' map_of_unconsumed split: option.splits)
  next
    case True
    then obtain key where m: "(key, k) \<in> set (fmt_keys self)" by auto
    then have "key = k" using keeps_names_mem [OF keeps m] k(1) by simp
    then have kk: "(k, k) \<in> set (fmt_keys self)" using m by simp
    from apply_fmt_keys_kept [OF app dist keeps k(1) kk] obtain v where
      v: "map_of message k = Some v"
      and vv: "(case map_of always k of
              Some w \<Rightarrow> (if w \<noteq> PNone then v = w else getattr lib r k = Inr v)
            | None \<Rightarrow> getattr lib r k = Inr v)" by blast
    have "map_of d k = Some v" using dk True v by (simp add: always' map_of_unconsumed)
    moreover have "v = (case map_of always k of Some w \<Rightarrow> w | None \<Rightarrow> PNone)"
      using vv always_fields_not_None [OF always, of k] always_fields_absent [OF always _ k(2)]
      by (auto split: option.splits if_splits)
    ultimately show ?thesis using kk by (simp split: option.splits)
  qed
qed

lemma map_of_rev_distinct: "distinct (map fst xs) \<Longrightarrow> map_of (rev xs) = map_of xs"
  by (subst map_of_inject_set) (simp_all add: rev_map [symmetric])

lemma prepare_log_dict_keys:
  assumes "prepare_log_dict lib self r = Inr d" and "always_fields lib r = Inr always"
  shows "map fst d = first_occurrences (specified_key_order (fmt_keys self) always r)"
proof -
  from assms obtain always' message where
    app: "apply_fmt_keys lib r (fmt_keys self) always [] = Inr (always', message)"
    and d: "d = add_custom_attrs (attrs r) (dict_update message always')"
    by (auto simp: prepare_log_dict_def split: sum.splits)
  have "always' = unconsumed (fmt_keys self) always"
    using app by (rule apply_fmt_keys_always)
  moreover have "map fst message = fold add_key (map fst (fmt_keys self)) []"
    using apply_fmt_keys_keys [OF app] by simp
  ultimately show ?thesis
    by (simp add: d add_custom_attrs_extra keys_dict_update first_occurrences_def
        specified_key_order_def)
qed

lemma prepare_log_dict_distinct:
  assumes "prepare_log_dict lib self r = Inr d"
  shows "distinct (map fst d)"
proof -
  from assms obtain always where "always_fields lib r = Inr always"
    by (auto simp: prepare_log_dict_def split: sum.splits)
  from prepare_log_dict_keys [OF assms this] show ?thesis
    by (simp add: first_occurrences_def distinct_fold_add_key)
qed

lemma sequence_map_Inr:
  "sequence (map f xs) = Inr ys \<longleftrightarrow> list_all2 (\<lambda>x y. f x = Inr y) xs ys"
proof (induction xs arbitrary: ys)
  case Nil
  then show ?case by auto
next
  case (Cons x xs)
  show ?case
  proof (cases "sequence (map f xs)")
    case (Inl e)
    then have "\<not> list_all2 (\<lambda>x y. f x = Inr y) xs zs" for zs
      using Cons.IH [of zs] by simp
    then show ?thesis by (cases ys) (auto simp: Inl split: sum.splits)
  next
    case (Inr zs)
    then have "list_all2 (\<lambda>x y. f x = Inr y) xs zs' \<longleftrightarrow> zs' = zs" for zs'
      using Cons.IH [of zs'] by auto
    then show ?thesis by (cases ys) (auto simp: Inr split: sum.splits)
  qed
qed

lemma map_sum_id_Inr: "map_sum id f x = Inr y \<longleftrightarrow> (\<exists>z. x = Inr z \<and> y = f z)"
  by (cases x) auto


text \<open>The document \<^verbatim>\<open>format\<close> returns, member by member.\<close>

lemma format_record_members:
  assumes "format_record lib self r = Inr j"
  obtains d members where
    "prepare_log_dict lib self r = Inr d"
    "j = JObj members"
    "list_all2 (\<lambda>(k, v) (k', jv). k' = k \<and> dumps lib v = Inr jv) d members"
proof -
  from assms obtain d where d: "prepare_log_dict lib self r = Inr d"
    and j: "dumps lib (PDict (map (\<lambda>(k, v). (KStr k, v)) d)) = Inr j"
    by (auto simp: format_record_def split: sum.splits)
  from j obtain members where m: "j = JObj members"
    and s: "sequence (map (\<lambda>item. case key_text lib (fst item) of
          Inl e \<Rightarrow> Inl e
        | Inr k \<Rightarrow> map_sum id (Pair k) (dumps lib (snd item))) (map (\<lambda>(k, v). (KStr k, v)) d))
          = Inr members"
    by (cases "sequence (map (\<lambda>item. case key_text lib (fst item) of
          Inl e \<Rightarrow> Inl e
        | Inr k \<Rightarrow> map_sum id (Pair k) (dumps lib (snd item))) (map (\<lambda>(k, v). (KStr k, v)) d))")
      auto
  have "list_all2 (\<lambda>(k, v) (k', jv). k' = k \<and> dumps lib v = Inr jv) d members"
    using s unfolding map_map sequence_map_Inr
    by (rule list_all2_mono) (auto simp: key_text_def map_sum_id_Inr split: sum.splits)
  with d m show ?thesis by (rule that)
qed

lemma list_all2_members_keys:
  "list_all2 (\<lambda>(k, v) (k', jv). k' = k \<and> P v jv) d members \<Longrightarrow> map fst members = map fst d"
  by (induction d members rule: list_all2_induct) auto

lemma list_all2_members_get:
  "list_all2 (\<lambda>(k, v) (k', jv). k' = k \<and> P v jv) d members \<Longrightarrow>
     (case map_of d k of None \<Rightarrow> map_of members k = None
      | Some v \<Rightarrow> \<exists>jv. P v jv \<and> map_of members k = Some jv)"
  by (induction d members rule: list_all2_induct) (auto split: option.splits)

lemma format_record_keys:
  assumes "format_record lib self r = Inr j"
  shows "\<exists>d. prepare_log_dict lib self r = Inr d \<and> json_keys j = map fst d"
  using assms
  by (auto elim!: format_record_members simp: json_keys_def dest: list_all2_members_keys)

lemma format_record_get:
  assumes "format_record lib self r = Inr j" and "prepare_log_dict lib self r = Inr d"
  shows "case map_of d k of None \<Rightarrow> json_get j k = None
         | Some v \<Rightarrow> \<exists>jv. dumps lib v = Inr jv \<and> json_get j k = Some jv"
proof -
  from assms obtain members where j: "j = JObj members"
    and l: "list_all2 (\<lambda>(k, v) (k', jv). k' = k \<and> dumps lib v = Inr jv) d members"
    by (auto elim!: format_record_members)
  have "distinct (map fst members)"
    using list_all2_members_keys [OF l] prepare_log_dict_distinct [OF assms(2)] by simp
  then have "json_get j k = map_of members k"
    by (simp add: json_get_def j map_of_rev_distinct)
  then show ?thesis using list_all2_members_get [OF l, of k] by (simp split: option.splits)
qed

lemma keys_filter:
  "fst ` set (filter (\<lambda>(k, v). P k) kvs) = {k \<in> fst ` set kvs. P k}"
  by (induction kvs) auto

section \<open>The model run on the sample records\<close>

lemma sample_lib_simps:
  "class_attr sample_lib name =
     (if name = ''getMessage'' then Some (PObj ''<bound method LogRecord.getMessage>'') else None)"
  "getMessage sample_lib r =
     (case map_of (attrs r) ''msg'' of
        Some (PStr s) \<Rightarrow>
          (case map_of (attrs r) ''args'' of
             Some (PTuple []) \<Rightarrow> Inr s
           | Some PNone \<Rightarrow> Inr s
           | _ \<Rightarrow> Inl (LibraryError ''message arguments''))
      | _ \<Rightarrow> Inl (LibraryError ''message object''))"
  "formatException sample_lib exc_info = Inr ''Traceback (most recent call last):''"
  "float_micros sample_lib (Finite m e) =
     (if 0 \<le> e then Inr (m * 2 ^ nat e * 1000000)
      else Inr (round_half_even (m * 1000000) (2 ^ nat (- e))))"
  "str_of sample_lib obj = Inr obj"
  by (simp_all add: sample_lib_def)

lemmas text_eval =
  zpad_def dec.simps digit_char_def replicate_numeral read_digits_numeral
  fromtimestamp_utc_def isoformat_def ord2ymd_def month_day_def Let_def
  days_before_month_def days_in_month_def
  parse_iso8601_utc_def read_field_def read_fraction_def digit_val_def

lemmas record_eval =
  getattr_def sample_lib_simps builtin_attrs_of_started_def
  always_fields_def dict_set_def dict_pop_def dict_update_def formatStack_def
  prepare_log_dict_def add_custom_attrs_def LOG_RECORD_BUILTIN_ATTRS_def format_record_def
  key_text_def main_formatter_def renaming_formatter_def note_formatter_def

lemma sample_timestamp:
  "utc_timestamp sample_lib (PFloat (Finite 3461356801 (- 1))) =
     Inr ''2024-11-04T00:00:00.500000+00:00''"
  by (simp add: text_eval utc_timestamp_def sample_lib_simps round_half_even_def)

lemma always_fields_started:
  "always_fields sample_lib started_record =
     Inr [(''message'', PStr ''Started application''),
          (''timestamp'', PStr ''2024-11-04T00:00:00.500000+00:00'')]"
  by (simp add: started_record_def record_eval sample_timestamp)

lemma format_started:
  "format_record sample_lib main_formatter started_record =
     Inr (JObj [(''level'', JStr ''INFO''), (''message'', JStr ''Started application''),
                (''timestamp'', JStr ''2024-11-04T00:00:00.500000+00:00''),
                (''note'', JStr ''some extra info here'')])"
  by (simp add: started_record_def record_eval sample_timestamp)

lemma always_fields_stale:
  "always_fields sample_lib stale_message_record =
     Inr [(''message'', PStr ''Started application''),
          (''timestamp'', PStr ''2024-11-04T00:00:00.500000+00:00'')]"
  by (simp add: stale_message_record_def record_eval sample_timestamp)

lemma format_stale:
  "format_record sample_lib main_formatter stale_message_record =
     Inr (JObj [(''level'', JStr ''INFO''), (''message'', JStr ''Started application''),
                (''timestamp'', JStr ''2024-11-04T00:00:00.500000+00:00'')])"
  by (simp add: stale_message_record_def record_eval sample_timestamp)

lemma always_fields_shadowing:
  "always_fields sample_lib shadowing_record =
     Inr [(''message'', PStr ''Started application''),
          (''timestamp'', PStr ''2024-11-04T00:00:00.500000+00:00'')]"
  by (simp add: shadowing_record_def record_eval sample_timestamp)

lemma format_shadowing:
  "format_record sample_lib main_formatter shadowing_record =
     Inr (JObj [(''level'', JStr ''INFO''), (''message'', JStr ''Started application''),
                (''timestamp'', JStr ''yesterday'')])"
  by (simp add: shadowing_record_def record_eval sample_timestamp)

lemma format_renaming:
  "format_record sample_lib renaming_formatter started_record =
     Inr (JObj [(''ts'', JStr ''2024-11-04T00:00:00.500000+00:00''),
                (''message'', JStr ''Started application''),
                (''note'', JStr ''some extra info here'')])"
  by (simp add: started_record_def record_eval sample_timestamp)

lemma format_note:
  "format_record sample_lib note_formatter started_record =
     Inr (JObj [(''note'', JStr ''some extra info here''),
                (''message'', JStr ''Started application''),
                (''timestamp'', JStr ''2024-11-04T00:00:00.500000+00:00'')])"
  by (simp add: started_record_def record_eval sample_timestamp)






section \<open>Facts about the formatted document\<close>

lemma utc_timestamp_iso:
  assumes "utc_timestamp lib created = Inr ts"
  shows "\<exists>t. parse_iso8601_utc ts = Some t \<and> valid_datetime t"
proof -
  from assms obtain us t where "fromtimestamp_utc us = Inr t" and ts: "ts = isoformat t"
    by (auto simp: utc_timestamp_def map_sum_id_Inr split: sum.splits)
  then have "valid_datetime t" by (simp add: fromtimestamp_utc_valid)
  then show ?thesis using parse_isoformat [of t] ts by auto
qed

lemma format_record_always:
  "format_record lib self r = Inr j \<Longrightarrow> \<exists>always. always_fields lib r = Inr always"
  by (auto simp: format_record_def prepare_log_dict_def split: sum.splits)

lemma format_record_key_order:
  assumes "format_record lib self r = Inr j" and "always_fields lib r = Inr always"
  shows "json_keys j = first_occurrences (specified_key_order (fmt_keys self) always r)"
proof -
  from format_record_keys [OF assms(1)] obtain d where
    "prepare_log_dict lib self r = Inr d" and "json_keys j = map fst d" by blast
  then show ?thesis using prepare_log_dict_keys [OF _ assms(2)] by simp
qed

lemma set_first_occurrences: "set (first_occurrences ks) = set ks"
  by (simp add: first_occurrences_def set_fold_add_key)

lemma first_occurrences_distinct: "distinct ks \<Longrightarrow> first_occurrences ks = ks"
  using fold_add_key_distinct [of "[]" ks] by (simp add: first_occurrences_def)

lemma map_of_Some_key: "map_of d k = Some v \<Longrightarrow> k \<in> set (map fst d)"
  by (force dest: map_of_SomeD)

section \<open>Properties of JsonFormatter\<close>

subsection \<open>Extra fields and the implicit fields\<close>

text \<open>
  C1 (as amended): for every log record and every field mapping that does not remap the
  reserved names, whenever \<^verbatim>\<open>format\<close> returns, each of \<^verbatim>\<open>message\<close>, \<^verbatim>\<open>exc_info\<close> and
  \<^verbatim>\<open>stack_info\<close> that the formatter computed is emitted under its own name with the
  computed value, whatever attributes the record carries; a reserved name that was not
  computed is emitted only when the mapping names it, and then as \<^verbatim>\<open>null\<close>.  For
  \<^verbatim>\<open>timestamp\<close> the same holds only when the record has no attribute of that name.
\<close>

theorem implicit_fields_not_shadowed:
  assumes "format_record lib self r = Inr j"
    and "always_fields lib r = Inr always"
    and "distinct (map fst (fmt_keys self))"
    and "keeps_names reserved_names (fmt_keys self)"
    and "k \<in> set reserved_names"
    and "k = ''timestamp'' \<longrightarrow> ''timestamp'' \<notin> fst ` set (attrs r)"
  shows "case map_of always k of
           Some v \<Rightarrow> \<exists>jv. dumps lib v = Inr jv \<and> json_get j k = Some jv
         | None \<Rightarrow> json_get j k = (if (k, k) \<in> set (fmt_keys self) then Some JNull else None)"
proof -
  from format_record_keys [OF assms(1)] obtain d where
    d: "prepare_log_dict lib self r = Inr d" by blast
  have "k \<in> set LOG_RECORD_BUILTIN_ATTRS \<or> k \<notin> fst ` set (attrs r)"
    using assms(5,6) by (force simp: reserved_names_def LOG_RECORD_BUILTIN_ATTRS_def)
  from prepare_log_dict_kept [OF d assms(2,3,4) assms(5) assms(5) this]
  have dk: "map_of d k =
           (case map_of always k of
              Some v \<Rightarrow> Some v
            | None \<Rightarrow> if (k, k) \<in> set (fmt_keys self) then Some PNone else None)" .
  show ?thesis
    using format_record_get [OF assms(1) d, of k] dk
    by (auto split: option.splits if_splits)
qed

theorem implicit_fields_not_shadowed_witness:
  "format_record sample_lib main_formatter stale_message_record =
     Inr (JObj [(''level'', JStr ''INFO''), (''message'', JStr ''Started application''),
                (''timestamp'', JStr ''2024-11-04T00:00:00.500000+00:00'')]) \<and>
   always_fields sample_lib stale_message_record =
     Inr [(''message'', PStr ''Started application''),
          (''timestamp'', PStr ''2024-11-04T00:00:00.500000+00:00'')] \<and>
   distinct (map fst (fmt_keys main_formatter)) \<and>
   keeps_names reserved_names (fmt_keys main_formatter) \<and>
   ''message'' \<in> set reserved_names \<and>
   map_of (attrs stale_message_record) ''message'' = Some (PStr ''an older message'') \<and>
   json_get (JObj [(''level'', JStr ''INFO''), (''message'', JStr ''Started application''),
                (''timestamp'', JStr ''2024-11-04T00:00:00.500000+00:00'')]) ''message''
     = Some (JStr ''Started application'')"
proof -
  have h: "distinct (map fst (fmt_keys main_formatter))"
    "keeps_names reserved_names (fmt_keys main_formatter)"
    "''message'' \<in> set reserved_names"
    "''message'' = ''timestamp'' \<longrightarrow> ''timestamp'' \<notin> fst ` set (attrs stale_message_record)"
    by (simp_all add: main_formatter_def keeps_names_def reserved_names_def)
  have a: "map_of (attrs stale_message_record) ''message'' = Some (PStr ''an older message'')"
    by (simp add: stale_message_record_def builtin_attrs_of_started_def)
  show ?thesis
    using implicit_fields_not_shadowed [OF format_stale always_fields_stale h]
    by (simp add: format_stale always_fields_stale h a)
qed

text \<open>
  As the claim was stated it fails for \<^verbatim>\<open>timestamp\<close>: the name is not in
  \<^verbatim>\<open>LOG_RECORD_BUILTIN_ATTRS\<close>, so an extra field of that name is copied over the computed
  value.  Here the mapping is the identity on the reserved names, the computed timestamp
  is the ISO text, and the document says \<^verbatim>\<open>yesterday\<close>.
\<close>

theorem extra_timestamp_shadows_counterexample:
  "keeps_names reserved_names (fmt_keys main_formatter) \<and>
   map_of (attrs shadowing_record) ''timestamp'' = Some (PStr ''yesterday'') \<and>
   always_fields sample_lib shadowing_record =
     Inr [(''message'', PStr ''Started application''),
          (''timestamp'', PStr ''2024-11-04T00:00:00.500000+00:00'')] \<and>
   format_record sample_lib main_formatter shadowing_record =
     Inr (JObj [(''level'', JStr ''INFO''), (''message'', JStr ''Started application''),
                (''timestamp'', JStr ''yesterday'')])"
proof -
  have "keeps_names reserved_names (fmt_keys main_formatter)"
    by (simp add: main_formatter_def keeps_names_def reserved_names_def)
  moreover have "map_of (attrs shadowing_record) ''timestamp'' = Some (PStr ''yesterday'')"
    by (simp add: shadowing_record_def builtin_attrs_of_started_def)
  ultimately show ?thesis
    using always_fields_shadowing format_shadowing by blast
qed

subsection \<open>The keys every consumer relies on\<close>

text \<open>
  C4 (as amended): for every log record and every formatter configuration whose field
  mapping does not remap \<^verbatim>\<open>message\<close> or \<^verbatim>\<open>timestamp\<close> (any indent setting), whenever
  \<^verbatim>\<open>format\<close> returns, the object it wrote contains the keys \<^verbatim>\<open>message\<close> and
  \<^verbatim>\<open>timestamp\<close>; and when the record has no attribute named \<^verbatim>\<open>timestamp\<close>, the value
  of \<^verbatim>\<open>timestamp\<close> is a text that reads as an ISO 8601 date and time with the UTC offset.
\<close>

theorem message_and_timestamp_present:
  assumes "format_record lib self r = Inr j"
    and "distinct (map fst (fmt_keys self))"
    and "keeps_names [''message'', ''timestamp''] (fmt_keys self)"
  shows "''message'' \<in> set (json_keys j) \<and> ''timestamp'' \<in> set (json_keys j) \<and>
         (''timestamp'' \<notin> fst ` set (attrs r) \<longrightarrow>
            (\<exists>s t. json_get j ''timestamp'' = Some (JStr s) \<and>
                   parse_iso8601_utc s = Some t \<and> valid_datetime t))"
proof -
  from format_record_keys [OF assms(1)] obtain d where
    d: "prepare_log_dict lib self r = Inr d" and keys: "json_keys j = map fst d" by blast
  from format_record_always [OF assms(1)] obtain always where
    always: "always_fields lib r = Inr always" by blast
  from always_fields_message [OF always] obtain msg where
    msg: "map_of always ''message'' = Some (PStr msg)" by blast
  from always_fields_timestamp [OF always] obtain created ts where
    ts: "utc_timestamp lib created = Inr ts" "map_of always ''timestamp'' = Some (PStr ts)"
    by blast
  have "map_of d ''message'' = Some (PStr msg)"
    using prepare_log_dict_kept [OF d always assms(2,3), of "''message''"] msg
    by (simp add: reserved_names_def LOG_RECORD_BUILTIN_ATTRS_def)
  then have m: "''message'' \<in> set (json_keys j)"
    unfolding keys by (rule map_of_Some_key)
  have t: "''timestamp'' \<in> set (json_keys j)"
  proof (cases "''timestamp'' \<in> fst ` set (attrs r)")
    case True
    then have "''timestamp'' \<in> fst ` set (extra_fields r)"
      by (auto simp: extra_fields_def LOG_RECORD_BUILTIN_ATTRS_def image_iff)
    then show ?thesis
      unfolding format_record_key_order [OF assms(1) always]
      by (simp add: set_first_occurrences specified_key_order_def)
  next
    case False
    then have "map_of d ''timestamp'' = Some (PStr ts)"
      using prepare_log_dict_kept [OF d always assms(2,3), of "''timestamp''"] ts
      by (simp add: reserved_names_def)
    then show ?thesis unfolding keys by (rule map_of_Some_key)
  qed
  have "\<exists>s t. json_get j ''timestamp'' = Some (JStr s) \<and>
                   parse_iso8601_utc s = Some t \<and> valid_datetime t"
    if "''timestamp'' \<notin> fst ` set (attrs r)"
  proof -
    have "map_of d ''timestamp'' = Some (PStr ts)"
      using prepare_log_dict_kept [OF d always assms(2,3), of "''timestamp''"] ts that
      by (simp add: reserved_names_def)
    then have "json_get j ''timestamp'' = Some (JStr ts)"
      using format_record_get [OF assms(1) d, of "''timestamp''"] by auto
    then show ?thesis using utc_timestamp_iso [OF ts(1)] by auto
  qed
  with m t show ?thesis by blast
qed

theorem message_and_timestamp_present_witness:
  "format_record sample_lib main_formatter started_record =
     Inr (JObj [(''level'', JStr ''INFO''), (''message'', JStr ''Started application''),
                (''timestamp'', JStr ''2024-11-04T00:00:00.500000+00:00''),
                (''note'', JStr ''some extra info here'')]) \<and>
   distinct (map fst (fmt_keys main_formatter)) \<and>
   keeps_names [''message'', ''timestamp''] (fmt_keys main_formatter) \<and>
   ''timestamp'' \<notin> fst ` set (attrs started_record) \<and>
   parse_iso8601_utc ''2024-11-04T00:00:00.500000+00:00'' =
     Some \<lparr>year = 2024, month = 11, day = 4, hour = 0, minute = 0, second = 0,
            microsecond = 500000\<rparr>"
proof -
  have h: "distinct (map fst (fmt_keys main_formatter))"
    "keeps_names [''message'', ''timestamp''] (fmt_keys main_formatter)"
    by (simp_all add: main_formatter_def keeps_names_def)
  have a: "''timestamp'' \<notin> fst ` set (attrs started_record)"
    by (simp add: started_record_def builtin_attrs_of_started_def)
  have p: "parse_iso8601_utc ''2024-11-04T00:00:00.500000+00:00'' =
     Some \<lparr>year = 2024, month = 11, day = 4, hour = 0, minute = 0, second = 0,
            microsecond = 500000\<rparr>"
    by (simp add: text_eval)
  show ?thesis
    using message_and_timestamp_present [OF format_started h] a
    by (simp add: format_started h p json_get_def)
qed

text \<open>
  As the claim was stated (any field mapping) it fails: a mapping that emits the timestamp
  under another key consumes it, and the object has no key \<^verbatim>\<open>timestamp\<close>.
\<close>

theorem renamed_timestamp_counterexample:
  "fmt_keys renaming_formatter = [(''ts'', ''timestamp'')] \<and>
   format_record sample_lib renaming_formatter started_record =
     Inr (JObj [(''ts'', JStr ''2024-11-04T00:00:00.500000+00:00''),
                (''message'', JStr ''Started application''),
                (''note'', JStr ''some extra info here'')]) \<and>
   ''timestamp'' \<notin> set (json_keys (JObj [(''ts'', JStr ''2024-11-04T00:00:00.500000+00:00''),
                (''message'', JStr ''Started application''),
                (''note'', JStr ''some extra info here'')]))"
  using format_renaming by (simp add: renaming_formatter_def json_keys_def)

subsection \<open>The order of the keys\<close>

text \<open>
  C6 (as amended): for every log record and field mapping for which \<^verbatim>\<open>format\<close> returns,
  the keys of the object are the mapped output keys in the mapping's order, then the
  implicit fields that the mapping did not consume, then the extra fields, each key
  standing once, at the place of its first occurrence in that sequence (a later
  assignment to a key that is already present replaces the value where the key stands).
  When the three groups have no name in common the keys are exactly that sequence.
\<close>

theorem key_order_first_occurrences:
  assumes "format_record lib self r = Inr j" and "always_fields lib r = Inr always"
  shows "json_keys j = first_occurrences (specified_key_order (fmt_keys self) always r) \<and>
         (distinct (specified_key_order (fmt_keys self) always r) \<longrightarrow>
            json_keys j = specified_key_order (fmt_keys self) always r)"
  using format_record_key_order [OF assms] by (simp add: first_occurrences_distinct)

theorem key_order_first_occurrences_witness:
  "format_record sample_lib main_formatter started_record =
     Inr (JObj [(''level'', JStr ''INFO''), (''message'', JStr ''Started application''),
                (''timestamp'', JStr ''2024-11-04T00:00:00.500000+00:00''),
                (''note'', JStr ''some extra info here'')]) \<and>
   always_fields sample_lib started_record =
     Inr [(''message'', PStr ''Started application''),
          (''timestamp'', PStr ''2024-11-04T00:00:00.500000+00:00'')] \<and>
   specified_key_order (fmt_keys main_formatter)
     [(''message'', PStr ''Started application''),
      (''timestamp'', PStr ''2024-11-04T00:00:00.500000+00:00'')] started_record
     = [''level'', ''message'', ''timestamp'', ''note''] \<and>
   json_keys (JObj [(''level'', JStr ''INFO''), (''message'', JStr ''Started application''),
                (''timestamp'', JStr ''2024-11-04T00:00:00.500000+00:00''),
                (''note'', JStr ''some extra info here'')])
     = [''level'', ''message'', ''timestamp'', ''note'']"
proof -
  have o: "specified_key_order (fmt_keys main_formatter)
     [(''message'', PStr ''Started application''),
      (''timestamp'', PStr ''2024-11-04T00:00:00.500000+00:00'')] started_record
     = [''level'', ''message'', ''timestamp'', ''note'']"
    by (simp add: specified_key_order_def unconsumed_def extra_fields_def main_formatter_def
        started_record_def builtin_attrs_of_started_def LOG_RECORD_BUILTIN_ATTRS_def)
  show ?thesis
    using key_order_first_occurrences [OF format_started always_fields_started]
    by (simp add: format_started always_fields_started o json_keys_def)
qed

text \<open>
  As the claim was stated it fails when a name is in two groups.  The mapping emits the
  level name under \<^verbatim>\<open>note\<close> and the record has the extra field \<^verbatim>\<open>note\<close>: the stated
  order ends with \<^verbatim>\<open>note\<close>, the object has the key once, in first place.
\<close>

theorem key_order_counterexample:
  "always_fields sample_lib started_record =
     Inr [(''message'', PStr ''Started application''),
          (''timestamp'', PStr ''2024-11-04T00:00:00.500000+00:00'')] \<and>
   specified_key_order (fmt_keys note_formatter)
     [(''message'', PStr ''Started application''),
      (''timestamp'', PStr ''2024-11-04T00:00:00.500000+00:00'')] started_record
     = [''note'', ''message'', ''timestamp'', ''note''] \<and>
   format_record sample_lib note_formatter started_record =
     Inr (JObj [(''note'', JStr ''some extra info here''),
                (''message'', JStr ''Started application''),
                (''timestamp'', JStr ''2024-11-04T00:00:00.500000+00:00'')]) \<and>
   json_keys (JObj [(''note'', JStr ''some extra info here''),
                (''message'', JStr ''Started application''),
                (''timestamp'', JStr ''2024-11-04T00:00:00.500000+00:00'')])
     = [''note'', ''message'', ''timestamp'']"
proof -
  have "specified_key_order (fmt_keys note_formatter)
     [(''message'', PStr ''Started application''),
      (''timestamp'', PStr ''2024-11-04T00:00:00.500000+00:00'')] started_record
     = [''note'', ''message'', ''timestamp'', ''note'']"
    by (simp add: specified_key_order_def unconsumed_def extra_fields_def note_formatter_def
        started_record_def builtin_attrs_of_started_def LOG_RECORD_BUILTIN_ATTRS_def)
  moreover have "json_keys (JObj [(''note'', JStr ''some extra info here''),
                (''message'', JStr ''Started application''),
                (''timestamp'', JStr ''2024-11-04T00:00:00.500000+00:00'')])
     = [''note'', ''message'', ''timestamp'']"
    by (simp add: json_keys_def)
  ultimately show ?thesis
    using always_fields_started format_note by blast
qed

subsection \<open>The set of keys\<close>

text \<open>
  C10: for every log record for which \<^verbatim>\<open>format\<close> returns, the set of keys of the object
  is exactly the mapping's output keys, plus the implicit fields (\<^verbatim>\<open>message\<close>,
  \<^verbatim>\<open>timestamp\<close>, and \<^verbatim>\<open>exc_info\<close> and \<^verbatim>\<open>stack_info\<close> when the record has them) that no
  entry of the mapping consumed, plus the attributes of the record whose names are not in
  \<^verbatim>\<open>LOG_RECORD_BUILTIN_ATTRS\<close>.  So a built-in attribute that is not an implicit field
  (\<^verbatim>\<open>levelno\<close>, \<^verbatim>\<open>module\<close>, \<^verbatim>\<open>thread\<close>, \<dots>) is a key only when the mapping has it as an
  output key.
\<close>

theorem output_key_set:
  assumes "format_record lib self r = Inr j"
  shows "set (json_keys j) =
           fst ` set (fmt_keys self) \<union>
           {k \<in> set (implicit_names lib r). k \<notin> snd ` set (fmt_keys self)} \<union>
           {k \<in> fst ` set (attrs r). k \<notin> set LOG_RECORD_BUILTIN_ATTRS} \<and>
         (\<forall>k \<in> set LOG_RECORD_BUILTIN_ATTRS - {''message'', ''exc_info'', ''stack_info''}.
            k \<in> set (json_keys j) \<longleftrightarrow> k \<in> fst ` set (fmt_keys self))"
proof -
  from format_record_always [OF assms] obtain always where
    always: "always_fields lib r = Inr always" by blast
  have names: "map fst always = implicit_names lib r"
    using always_fields_keys [OF always] by (simp add: implicit_names_def)
  have sn: "set (implicit_names lib r) = fst ` set always"
    by (simp add: names [symmetric])
  have u: "fst ` set (unconsumed (fmt_keys self) always) =
      {k \<in> set (implicit_names lib r). k \<notin> snd ` set (fmt_keys self)}"
    unfolding unconsumed_def sn by (rule keys_filter)
  have e: "fst ` set (extra_fields r) =
      {k \<in> fst ` set (attrs r). k \<notin> set LOG_RECORD_BUILTIN_ATTRS}"
    unfolding extra_fields_def by (rule keys_filter)
  have keys: "set (json_keys j) =
           fst ` set (fmt_keys self) \<union>
           {k \<in> set (implicit_names lib r). k \<notin> snd ` set (fmt_keys self)} \<union>
           {k \<in> fst ` set (attrs r). k \<notin> set LOG_RECORD_BUILTIN_ATTRS}"
    unfolding format_record_key_order [OF assms always]
    by (simp add: set_first_occurrences specified_key_order_def u e Un_assoc)
  have t: "''timestamp'' \<notin> set LOG_RECORD_BUILTIN_ATTRS"
    by (simp add: LOG_RECORD_BUILTIN_ATTRS_def)
  have "k \<in> set (json_keys j) \<longleftrightarrow> k \<in> fst ` set (fmt_keys self)"
    if k: "k \<in> set LOG_RECORD_BUILTIN_ATTRS - {''message'', ''exc_info'', ''stack_info''}" for k
  proof -
    have "k \<noteq> ''timestamp''" using k t by blast
    then have "k \<notin> set (implicit_names lib r)"
      using k by (simp add: implicit_names_def)
    then show ?thesis using k by (simp add: keys)
  qed
  with keys show ?thesis by blast
qed

theorem output_key_set_witness:
  "format_record sample_lib main_formatter started_record =
     Inr (JObj [(''level'', JStr ''INFO''), (''message'', JStr ''Started application''),
                (''timestamp'', JStr ''2024-11-04T00:00:00.500000+00:00''),
                (''note'', JStr ''some extra info here'')]) \<and>
   ''levelno'' \<in> set LOG_RECORD_BUILTIN_ATTRS - {''message'', ''exc_info'', ''stack_info''} \<and>
   ''levelno'' \<in> fst ` set (attrs started_record) \<and>
   ''levelno'' \<notin> fst ` set (fmt_keys main_formatter) \<and>
   ''levelno'' \<notin> set (json_keys (JObj [(''level'', JStr ''INFO''),
                (''message'', JStr ''Started application''),
                (''timestamp'', JStr ''2024-11-04T00:00:00.500000+00:00''),
                (''note'', JStr ''some extra info here'')]))"
proof -
  have b: "''levelno'' \<in> set LOG_RECORD_BUILTIN_ATTRS - {''message'', ''exc_info'', ''stack_info''}"
    by (simp add: LOG_RECORD_BUILTIN_ATTRS_def)
  have a: "''levelno'' \<in> fst ` set (attrs started_record)"
    by (simp add: started_record_def builtin_attrs_of_started_def)
  have m: "''levelno'' \<notin> fst ` set (fmt_keys main_formatter)"
    by (simp add: main_formatter_def)
  note k = output_key_set [OF format_started, THEN conjunct2, THEN bspec, OF b]
  show ?thesis
    using k b a m by (simp add: format_started)
qed

subsection \<open>The first record of \<^verbatim>\<open>main.py\<close>\<close>

text \<open>
  C2: a record with severity INFO, message "Started application" and the extra fields
  \<^verbatim>\<open>{"note": "some extra info here"}\<close>, formatted with the field mapping
  \<^verbatim>\<open>{"level": "levelname", "message": "message", "timestamp": "timestamp"}\<close>, gives an
  object whose keys are \<^verbatim>\<open>level\<close>, \<^verbatim>\<open>message\<close>, \<^verbatim>\<open>timestamp\<close> and \<^verbatim>\<open>note\<close>, in this
  order, where \<^verbatim>\<open>note\<close> is "some extra info here".  The record carries no exception and
  no stack information, as a record made by \<^verbatim>\<open>logger.info\<close> with these arguments does.
\<close>

theorem started_application_example:
  assumes "fmt_keys self =
      [(''level'', ''levelname''), (''message'', ''message''), (''timestamp'', ''timestamp'')]"
    and "getMessage lib r = Inr ''Started application''"
    and "map_of (attrs r) ''levelname'' = Some (PStr ''INFO'')"
    and "map_of (attrs r) ''created'' = Some created"
    and "utc_timestamp lib created = Inr ts"
    and "map_of (attrs r) ''exc_info'' = Some PNone"
    and "map_of (attrs r) ''stack_info'' = Some PNone"
    and "extra_fields r = [(''note'', PStr ''some extra info here'')]"
  shows "format_record lib self r =
     Inr (JObj [(''level'', JStr ''INFO''), (''message'', JStr ''Started application''),
                (''timestamp'', JStr ts), (''note'', JStr ''some extra info here'')])"
proof -
  have a: "always_fields lib r =
      Inr [(''message'', PStr ''Started application''), (''timestamp'', PStr ts)]"
    using assms(2,4,5,6,7) by (simp add: always_fields_def getattr_def)
  have d: "prepare_log_dict lib self r =
      Inr [(''level'', PStr ''INFO''), (''message'', PStr ''Started application''),
           (''timestamp'', PStr ts), (''note'', PStr ''some extra info here'')]"
    using assms(1,3,8)
    by (simp add: prepare_log_dict_def a add_custom_attrs_extra getattr_def dict_pop_def
        dict_set_def dict_update_def)
  show ?thesis by (simp add: format_record_def d key_text_def)
qed

theorem started_application_example_witness:
  "fmt_keys main_formatter =
      [(''level'', ''levelname''), (''message'', ''message''), (''timestamp'', ''timestamp'')] \<and>
   getMessage sample_lib started_record = Inr ''Started application'' \<and>
   map_of (attrs started_record) ''levelname'' = Some (PStr ''INFO'') \<and>
   map_of (attrs started_record) ''created'' = Some (PFloat (Finite 3461356801 (- 1))) \<and>
   utc_timestamp sample_lib (PFloat (Finite 3461356801 (- 1))) =
     Inr ''2024-11-04T00:00:00.500000+00:00'' \<and>
   map_of (attrs started_record) ''exc_info'' = Some PNone \<and>
   map_of (attrs started_record) ''stack_info'' = Some PNone \<and>
   extra_fields started_record = [(''note'', PStr ''some extra info here'')] \<and>
   format_record sample_lib main_formatter started_record =
     Inr (JObj [(''level'', JStr ''INFO''), (''message'', JStr ''Started application''),
                (''timestamp'', JStr ''2024-11-04T00:00:00.500000+00:00''),
                (''note'', JStr ''some extra info here'')])"
proof -
  have h: "fmt_keys main_formatter =
      [(''level'', ''levelname''), (''message'', ''message''), (''timestamp'', ''timestamp'')]"
    "getMessage sample_lib started_record = Inr ''Started application''"
    "map_of (attrs started_record) ''levelname'' = Some (PStr ''INFO'')"
    "map_of (attrs started_record) ''created'' = Some (PFloat (Finite 3461356801 (- 1)))"
    "utc_timestamp sample_lib (PFloat (Finite 3461356801 (- 1))) =
       Inr ''2024-11-04T00:00:00.500000+00:00''"
    "map_of (attrs started_record) ''exc_info'' = Some PNone"
    "map_of (attrs started_record) ''stack_info'' = Some PNone"
    "extra_fields started_record = [(''note'', PStr ''some extra info here'')]"
    by (simp_all add: main_formatter_def sample_lib_simps started_record_def
        builtin_attrs_of_started_def sample_timestamp extra_fields_def
        LOG_RECORD_BUILTIN_ATTRS_def)
  from started_application_example [OF h] h show ?thesis by blast
qed

subsection \<open>Serialisation\<close>







section \<open>Properties of NonErrorFilter\<close>

text \<open>
  C3: for every log record, \<^verbatim>\<open>NonErrorFilter.filter\<close> returns true if and only if the
  record's level number is at most INFO (20): DEBUG and INFO records are admitted, WARNING,
  ERROR and CRITICAL records are rejected.
\<close>

theorem filter_iff_le_INFO:
  "map_of (attrs r) ''levelno'' = Some (PInt n) \<Longrightarrow>
     filter_record lib r = Inr (n \<le> levelno_of INFO) \<and>
     (n = levelno_of l \<longrightarrow> filter_record lib r = Inr (l = DEBUG \<or> l = INFO))"
  by (cases l) (simp_all add: filter_record_def getattr_def)

theorem filter_iff_le_INFO_witness:
  "map_of (attrs warning_record) ''levelno'' = Some (PInt 30) \<and>
   30 = levelno_of WARNING \<and>
   filter_record sample_lib warning_record = Inr False"
proof -
  have h: "map_of (attrs warning_record) ''levelno'' = Some (PInt 30)"
    by (simp add: warning_record_def dict_set_def builtin_attrs_of_started_def)
  show ?thesis
    using h filter_iff_le_INFO [OF h, of sample_lib WARNING] by simp
qed

section \<open>Properties of setup_logging\<close>

lemma configure_handlers_names:
  "map fst (fst (configure_handlers cfg n)) = map fst cfg"
  by (induction cfg n rule: configure_handlers.induct) (auto split: prod.splits)

text \<open>The listeners of the handlers just configured are new ones.\<close>

lemma configure_handlers_fresh:
  "configure_handlers cfg n = (hs, n') \<Longrightarrow>
     n \<le> n' \<and> (\<forall>name l. (name, Handler (Some l)) \<in> set hs \<longrightarrow> n \<le> l \<and> l < n')"
proof (induction cfg n arbitrary: hs n' rule: configure_handlers.induct)
  case (1 n)
  then show ?case by simp
next
  case (2 name is_queue rest n)
  show ?case
  proof (cases is_queue)
    case True
    obtain hs0 n0 where c: "configure_handlers rest (Suc n) = (hs0, n0)"
      by (cases "configure_handlers rest (Suc n)")
    from "2.IH"(1) [OF True c] "2.prems" True c show ?thesis by fastforce
  next
    case False
    obtain hs0 n0 where c: "configure_handlers rest n = (hs0, n0)"
      by (cases "configure_handlers rest n")
    from "2.IH"(2) [OF False c] "2.prems" False c show ?thesis by fastforce
  qed
qed

lemma dictConfig_names: "map fst (handlers (dictConfig cfg p)) = map fst cfg"
  using configure_handlers_names [of cfg "listeners_made p"]
  by (cases "configure_handlers cfg (listeners_made p)") (simp add: dictConfig_def)

lemma dictConfig_keeps:
  "threads (dictConfig cfg p) = threads p" "atexit_hooks (dictConfig cfg p) = atexit_hooks p"
  by (simp_all add: dictConfig_def split: prod.splits)

lemma dictConfig_fresh:
  assumes "getHandlerByName (dictConfig cfg p) name = Some (Handler (Some l))"
  shows "listeners_made p \<le> l \<and> l < listeners_made (dictConfig cfg p)"
proof -
  obtain hs n' where c: "configure_handlers cfg (listeners_made p) = (hs, n')"
    by (cases "configure_handlers cfg (listeners_made p)")
  from assms have "(name, Handler (Some l)) \<in> set hs"
    by (simp add: getHandlerByName_def dictConfig_def c map_of_SomeD)
  with configure_handlers_fresh [OF c] show ?thesis
    by (simp add: dictConfig_def c)
qed

text \<open>
  C9 (as amended): \<^verbatim>\<open>setup_logging\<close> is a once-off setup and not idempotent.  Every call
  that returns and whose configuration declares a handler named \<^verbatim>\<open>queue_handler\<close> leaves
  that handler with a listener constructed by this very call, starts the thread of that
  listener and registers its \<^verbatim>\<open>stop\<close> as one more shutdown hook, after the threads started
  and the hooks registered by earlier calls; a call whose configuration declares no such
  handler starts no thread and registers no hook.
\<close>

theorem setup_logging_adds_thread_and_hook:
  assumes "setup_logging (Inr log_config) p = Inr p'"
  shows "if ''queue_handler'' \<in> fst ` set log_config
         then \<exists>l. getHandlerByName p' ''queue_handler'' = Some (Handler (Some l)) \<and>
                  listeners_made p \<le> l \<and> l < listeners_made p' \<and>
                  threads p' = threads p @ [l] \<and>
                  atexit_hooks p' = atexit_hooks p @ [l]
         else threads p' = threads p \<and> atexit_hooks p' = atexit_hooks p"
proof (cases "getHandlerByName (dictConfig log_config p) ''queue_handler''")
  case None
  then have "''queue_handler'' \<notin> fst ` set log_config"
    using dictConfig_names [of log_config p]
    by (simp add: getHandlerByName_def map_of_eq_None_iff flip: set_map)
  moreover have "p' = dictConfig log_config p"
    using assms None unfolding setup_logging_def by (simp add: Let_def)
  ultimately show ?thesis by (simp add: dictConfig_keeps)
next
  case (Some h)
  then have q: "''queue_handler'' \<in> fst ` set log_config"
    using dictConfig_names [of log_config p]
    by (metis getHandlerByName_def map_of_eq_None_iff option.distinct(1) set_map)
  from assms Some obtain l where l: "listener h = Some l"
    and p': "p' = atexit_register l (listener_start l (dictConfig log_config p))"
    unfolding setup_logging_def by (auto simp: Let_def split: option.splits)
  from l have h: "h = Handler (Some l)" by (cases h) simp
  from dictConfig_fresh [of log_config p "''queue_handler''" l] Some h
  have "listeners_made p \<le> l \<and> l < listeners_made (dictConfig log_config p)" by simp
  then have "getHandlerByName p' ''queue_handler'' = Some (Handler (Some l)) \<and>
      listeners_made p \<le> l \<and> l < listeners_made p' \<and>
      threads p' = threads p @ [l] \<and> atexit_hooks p' = atexit_hooks p @ [l]"
    using Some h
    by (simp add: p' atexit_register_def listener_start_def getHandlerByName_def
        dictConfig_keeps)
  with q show ?thesis by auto
qed

theorem setup_logging_adds_thread_and_hook_witness:
  "setup_logging (Inr queue_config)
     \<lparr>handlers = [(''stderr'', Handler None), (''queue_handler'', Handler (Some 0))],
      listeners_made = 1, threads = [0], atexit_hooks = [0]\<rparr> =
     Inr \<lparr>handlers = [(''stderr'', Handler None), (''queue_handler'', Handler (Some 1))],
          listeners_made = 2, threads = [0, 1], atexit_hooks = [0, 1]\<rparr> \<and>
   ''queue_handler'' \<in> fst ` set queue_config \<and>
   (\<exists>l. getHandlerByName
          \<lparr>handlers = [(''stderr'', Handler None), (''queue_handler'', Handler (Some 1))],
           listeners_made = 2, threads = [0, 1], atexit_hooks = [0, 1]\<rparr>
          ''queue_handler'' = Some (Handler (Some l)) \<and> 1 \<le> l \<and> l < 2)"
proof -
  have s: "setup_logging (Inr queue_config)
     \<lparr>handlers = [(''stderr'', Handler None), (''queue_handler'', Handler (Some 0))],
      listeners_made = 1, threads = [0], atexit_hooks = [0]\<rparr> =
     Inr \<lparr>handlers = [(''stderr'', Handler None), (''queue_handler'', Handler (Some 1))],
          listeners_made = 2, threads = [0, 1], atexit_hooks = [0, 1]\<rparr>"
    unfolding setup_logging_def
    by (simp add: Let_def queue_config_def dictConfig_def getHandlerByName_def
        listener_start_def atexit_register_def)
  have q: "''queue_handler'' \<in> fst ` set queue_config"
    by (simp add: queue_config_def)
  from setup_logging_adds_thread_and_hook [OF s] q
  have "\<exists>l. getHandlerByName
          \<lparr>handlers = [(''stderr'', Handler None), (''queue_handler'', Handler (Some 1))],
           listeners_made = 2, threads = [0, 1], atexit_hooks = [0, 1]\<rparr>
          ''queue_handler'' = Some (Handler (Some l)) \<and> 1 \<le> l \<and> l < 2"
    by auto
  with s q show ?thesis by blast
qed

text \<open>
  As the claim was stated (a second call starts no second thread and registers no second
  hook) it fails: after one call there is one thread and one hook, after the second call
  there are two of each, the second for the listener the second call constructed.
\<close>

theorem setup_logging_twice_counterexample:
  "setup_logging (Inr queue_config) fresh_process =
     Inr \<lparr>handlers = [(''stderr'', Handler None), (''queue_handler'', Handler (Some 0))],
          listeners_made = 1, threads = [0], atexit_hooks = [0]\<rparr> \<and>
   setup_logging (Inr queue_config)
     \<lparr>handlers = [(''stderr'', Handler None), (''queue_handler'', Handler (Some 0))],
      listeners_made = 1, threads = [0], atexit_hooks = [0]\<rparr> =
     Inr \<lparr>handlers = [(''stderr'', Handler None), (''queue_handler'', Handler (Some 1))],
          listeners_made = 2, threads = [0, 1], atexit_hooks = [0, 1]\<rparr> \<and>
   setup_logging (Inr queue_config)
     \<lparr>handlers = [(''stderr'', Handler None), (''queue_handler'', Handler (Some 0))],
      listeners_made = 1, threads = [0], atexit_hooks = [0]\<rparr> \<noteq>
     Inr \<lparr>handlers = [(''stderr'', Handler None), (''queue_handler'', Handler (Some 0))],
          listeners_made = 1, threads = [0], atexit_hooks = [0]\<rparr>"
  unfolding setup_logging_def
  by (simp add: Let_def queue_config_def fresh_process_def dictConfig_def
      getHandlerByName_def listener_start_def atexit_register_def)
end
